theory Spec2Isabelle
  imports Complex_Main
begin

section \<open>Module constants\<close>

definition EMPTY_CELL_SYMBOL :: string where
  "EMPTY_CELL_SYMBOL = '' ''"

definition CELL_DEFAULT_SYMBOL :: string where
  "CELL_DEFAULT_SYMBOL = ''#''"

section \<open>Python values the model needs\<close>

text \<open>
  The two exceptions engine.py can raise by itself: indexing a list out of range and
  iterating \<open>None\<close>. An operation that mutates its arguments in place ends in an
  \<open>outcome\<close>: it returned, or it raised, and in both cases the state it left behind
  is part of the result, as it is for the Python caller.
\<close>

datatype py_error = IndexError | TypeError

datatype 's outcome = Returned 's | Raised py_error 's

primrec state_of :: "'s outcome \<Rightarrow> 's" where
  "state_of (Returned s) = s"
| "state_of (Raised e s) = s"

text \<open>
  \<open>xs[i]\<close> in Python: an index from \<open>-len(xs)\<close> to \<open>len(xs) - 1\<close> names a slot,
  a negative one counting from the end; any other index raises IndexError.
\<close>

definition py_slot :: "'a list \<Rightarrow> int \<Rightarrow> py_error + nat" where
  "py_slot xs i =
     (if 0 \<le> i \<and> i < int (length xs) then Inr (nat i)
      else if i < 0 \<and> - int (length xs) \<le> i then Inr (nat (int (length xs) + i))
      else Inl IndexError)"

section \<open>class Cell\<close>

record cell =
  cell_x :: int
  cell_y :: int
  symbol :: string
  is_active :: bool

text \<open>\<open>Cell.__init__(x, y, symbol)\<close>; the caller passes the default symbol itself.\<close>

definition Cell :: "int \<Rightarrow> int \<Rightarrow> string \<Rightarrow> cell" where
  "Cell x y s = \<lparr>cell_x = x, cell_y = y, symbol = s, is_active = False\<rparr>"

definition activate :: "cell \<Rightarrow> string option \<Rightarrow> cell" where
  "activate c smb =
     (let s = (case smb of None \<Rightarrow> CELL_DEFAULT_SYMBOL | Some v \<Rightarrow> v)
      in c\<lparr>symbol := s, is_active := True\<rparr>)"

definition deactivate :: "cell \<Rightarrow> cell" where
  "deactivate c = c\<lparr>symbol := EMPTY_CELL_SYMBOL, is_active := False\<rparr>"

section \<open>class EngineObject\<close>

text \<open>
  A Cell object lives in exactly one slot of the grid of the Display that created it, and
  no code reassigns a slot. A reference to a Cell is therefore modelled by the address of
  its slot, (row, column); the grid is the store these addresses point into. An object
  is drawn on, moved on and removed from one and the same display. A Python reference
  cannot dangle; an address can, so the theorems about recorded cells ask for addresses
  inside the grid (\<open>valid_ref\<close>), which is what \<open>draw_object\<close> records.
\<close>

type_synonym cell_ref = "nat \<times> nat"

record engine_object =
  object_form :: "(int \<times> int \<times> string option) list"
  object_coordinates :: "cell_ref list option"

definition EngineObject :: "(int \<times> int \<times> string option) list \<Rightarrow> engine_object" where
  "EngineObject form = \<lparr>object_form = form, object_coordinates = None\<rparr>"

definition init_object_coordinates :: "engine_object \<Rightarrow> cell_ref list \<Rightarrow> engine_object" where
  "init_object_coordinates obj cs = obj\<lparr>object_coordinates := Some cs\<rparr>"

definition del_object_coordinates :: "engine_object \<Rightarrow> engine_object" where
  "del_object_coordinates obj = obj\<lparr>object_coordinates := None\<rparr>"

section \<open>class Display\<close>

record display =
  size_x :: int
  size_y :: int
  grid :: "cell list list"

text \<open>
  The field \<open>grid\<close> is the attribute \<open>self.display\<close>, indexed [row][column]. The
  constructor takes both sizes; Python's defaults are 120 and 30. \<open>range\<close> of a
  number that is not positive is empty.
\<close>

definition display_init :: "int \<Rightarrow> int \<Rightarrow> cell list list" where
  "display_init sx sy =
     map (\<lambda>row. map (\<lambda>col. Cell (int col) (int row) EMPTY_CELL_SYMBOL) [0..<nat sx])
       [0..<nat sy]"

definition Display :: "int \<Rightarrow> int \<Rightarrow> display" where
  "Display sx sy = \<lparr>size_x = sx, size_y = sy, grid = display_init sx sy\<rparr>"

text \<open>The store: evaluating \<open>self.display[y][x]\<close> to a reference, reading and
  mutating the Cell behind a reference.\<close>

definition cell_at :: "display \<Rightarrow> int \<Rightarrow> int \<Rightarrow> py_error + cell_ref" where
  "cell_at d x y =
     (case py_slot (grid d) y of
        Inl e \<Rightarrow> Inl e
      | Inr r \<Rightarrow>
          (case py_slot (grid d ! r) x of
             Inl e \<Rightarrow> Inl e
           | Inr c \<Rightarrow> Inr (r, c)))"

definition deref :: "display \<Rightarrow> cell_ref \<Rightarrow> cell" where
  "deref d ref = grid d ! fst ref ! snd ref"

definition mutate :: "display \<Rightarrow> cell_ref \<Rightarrow> (cell \<Rightarrow> cell) \<Rightarrow> display" where
  "mutate d ref f =
     d\<lparr>grid := (grid d)[fst ref := (grid d ! fst ref)[snd ref := f (deref d ref)]]\<rparr>"

definition check_coordinates :: "display \<Rightarrow> int \<Rightarrow> int \<Rightarrow> bool" where
  "check_coordinates d x y \<longleftrightarrow> (0 \<le> x \<and> x < size_x d) \<and> (0 \<le> y \<and> y < size_y d)"

definition activate_cell :: "display \<Rightarrow> int \<Rightarrow> int \<Rightarrow> string option \<Rightarrow> display outcome" where
  "activate_cell d x y smb =
     (let s = (case smb of None \<Rightarrow> CELL_DEFAULT_SYMBOL | Some v \<Rightarrow> v) in
      if check_coordinates d x y then
        (case cell_at d x y of
           Inl e \<Rightarrow> Raised e d
         | Inr ref \<Rightarrow> Returned (mutate d ref (\<lambda>c. activate c (Some s))))
      else Returned d)"

definition deactivate_cell :: "display \<Rightarrow> int \<Rightarrow> int \<Rightarrow> display outcome" where
  "deactivate_cell d x y =
     (if check_coordinates d x y then
        (case cell_at d x y of
           Inl e \<Rightarrow> Raised e d
         | Inr ref \<Rightarrow> Returned (mutate d ref deactivate))
      else Returned d)"

definition check_cell_condition :: "display \<Rightarrow> int \<Rightarrow> int \<Rightarrow> py_error + bool" where
  "check_cell_condition d x y =
     (if check_coordinates d x y then
        (case cell_at d x y of
           Inl e \<Rightarrow> Inl e
         | Inr ref \<Rightarrow> Inr (is_active (deref d ref)))
      else Inr False)"

text \<open>
  The loop of \<open>draw_object\<close>: \<open>acc\<close> is the local list \<open>object_coordinates\<close>. When
  an exception leaves the loop the object has not been touched yet.
\<close>

fun draw_loop ::
  "display \<Rightarrow> int \<Rightarrow> int \<Rightarrow> (int \<times> int \<times> string option) list \<Rightarrow> cell_ref list
     \<Rightarrow> (display \<times> cell_ref list) outcome" where
  "draw_loop d start_x start_y [] acc = Returned (d, acc)"
| "draw_loop d start_x start_y (coordinate # rest) acc =
     (let new_x = start_x + fst coordinate;
          new_y = start_y + fst (snd coordinate) in
      if check_coordinates d new_x new_y then
        (case activate_cell d new_x new_y (snd (snd coordinate)) of
           Raised e d' \<Rightarrow> Raised e (d', acc)
         | Returned d' \<Rightarrow>
             (case cell_at d' new_x new_y of
                Inl e \<Rightarrow> Raised e (d', acc)
              | Inr ref \<Rightarrow> draw_loop d' start_x start_y rest (acc @ [ref])))
      else draw_loop d start_x start_y rest acc)"

definition draw_object ::
  "display \<Rightarrow> engine_object \<Rightarrow> int \<Rightarrow> int \<Rightarrow> (display \<times> engine_object) outcome" where
  "draw_object d obj start_x start_y =
     (case draw_loop d start_x start_y (object_form obj) [] of
        Raised e (d', acc) \<Rightarrow> Raised e (d', obj)
      | Returned (d', acc) \<Rightarrow> Returned (d', init_object_coordinates obj acc))"

text \<open>The loop of \<open>del_object\<close> reads the fields x and y of each referenced Cell.\<close>

fun del_loop :: "display \<Rightarrow> cell_ref list \<Rightarrow> display outcome" where
  "del_loop d [] = Returned d"
| "del_loop d (coordinate # rest) =
     (case deactivate_cell d (cell_x (deref d coordinate)) (cell_y (deref d coordinate)) of
        Raised e d' \<Rightarrow> Raised e d'
      | Returned d' \<Rightarrow> del_loop d' rest)"

definition del_object :: "display \<Rightarrow> engine_object \<Rightarrow> (display \<times> engine_object) outcome" where
  "del_object d obj =
     (case object_coordinates obj of
        None \<Rightarrow> Raised TypeError (d, obj)
      | Some cs \<Rightarrow>
          (case del_loop d cs of
             Raised e d' \<Rightarrow> Raised e (d', obj)
           | Returned d' \<Rightarrow> Returned (d', del_object_coordinates obj)))"

definition move_object ::
  "display \<Rightarrow> engine_object \<Rightarrow> int \<Rightarrow> int \<Rightarrow> (display \<times> engine_object) outcome" where
  "move_object d obj move_to_x move_to_y =
     (case del_object d obj of
        Raised e s \<Rightarrow> Raised e s
      | Returned (d', obj') \<Rightarrow> draw_object d' obj' move_to_x move_to_y)"

text \<open>
  \<open>render\<close> calls print twice; the result is the text each call sends to standard
  output, in order. The second print appends its own line break to the buffer.
\<close>

definition render :: "display \<Rightarrow> string list" where
  "render d =
     [CHR 0x1B # ''[H'',
      foldl (\<lambda>buf row. buf @ concat (map symbol row) @ [CHR 0x0A]) [] (grid d) @ [CHR 0x0A]]"

text \<open>
  The lines of a frame as the specification words them: line i is the concatenation of
  the symbols of row i, in column order.
\<close>

definition render_lines :: "display \<Rightarrow> string list" where
  "render_lines d = map (\<lambda>row. concat (map symbol row)) (grid d)"

section \<open>class Engine\<close>

text \<open>
  The loops of \<open>Engine\<close> never return by themselves, so they are modelled by what
  their first n iterations do: the list of calls made, in order. \<open>update\<close> is the
  abstract hook of the subclass; it works on the engine's state \<open>'s\<close> and either returns
  or raises \<open>'e\<close>, which no loop catches. \<open>disp\<close> reads the attribute
  \<open>self.display\<close>. \<open>clock k\<close> is the value of the k-th call of \<open>time.time()\<close>.
  Seconds are real numbers here: the rounding of Python floats is not modelled, and of
  \<open>fps\<close> the function \<open>run\<close> uses nothing but its truth value. In \<open>run\<close> the
  call of \<open>_run_without_fps_limit\<close> that follows the \<open>if\<close> is reached only when the
  condition is false: the paced loop ends only by an exception, which leaves \<open>run\<close> too.
\<close>

datatype 'e event = Update_called | Rendered "string list" | Slept real | Uncaught 'e

fun run_without_fps_limit ::
  "('s \<Rightarrow> 'e + 's) \<Rightarrow> ('s \<Rightarrow> display) \<Rightarrow> nat \<Rightarrow> 's \<Rightarrow> 'e event list" where
  "run_without_fps_limit update disp 0 s = []"
| "run_without_fps_limit update disp (Suc n) s =
     Update_called #
     (case update s of
        Inl e \<Rightarrow> [Uncaught e]
      | Inr s' \<Rightarrow> Rendered (render (disp s')) # run_without_fps_limit update disp n s')"

fun with_fps_loop ::
  "('s \<Rightarrow> 'e + 's) \<Rightarrow> ('s \<Rightarrow> display) \<Rightarrow> (nat \<Rightarrow> real) \<Rightarrow> real option \<Rightarrow>
     nat \<Rightarrow> nat \<Rightarrow> real \<Rightarrow> 's \<Rightarrow> 'e event list" where
  "with_fps_loop update disp clock fps 0 k last_time s = []"
| "with_fps_loop update disp clock fps (Suc n) k last_time s =
     (case fps of
        None \<Rightarrow>
          Update_called #
          (case update s of
             Inl e \<Rightarrow> [Uncaught e]
           | Inr s' \<Rightarrow>
               Rendered (render (disp s')) # with_fps_loop update disp clock fps n k last_time s')
      | Some f \<Rightarrow>
          (let current_time = clock k;
               elapsed_time = current_time - last_time
           in (if elapsed_time < f then [Slept (f - elapsed_time)] else []) @
              Update_called #
              (case update s of
                 Inl e \<Rightarrow> [Uncaught e]
               | Inr s' \<Rightarrow>
                   Rendered (render (disp s')) #
                   with_fps_loop update disp clock fps n (k + 2) (clock (k + 1)) s')))"

definition run_with_fps_limit ::
  "('s \<Rightarrow> 'e + 's) \<Rightarrow> ('s \<Rightarrow> display) \<Rightarrow> (nat \<Rightarrow> real) \<Rightarrow> real option \<Rightarrow>
     nat \<Rightarrow> 's \<Rightarrow> 'e event list" where
  "run_with_fps_limit update disp clock fps n s =
     with_fps_loop update disp clock fps n 1 (clock 0) s"

text \<open>\<open>if fps:\<close> for an optional float: None and zero are false.\<close>

definition truthy :: "real option \<Rightarrow> bool" where
  "truthy fps \<longleftrightarrow> (case fps of None \<Rightarrow> False | Some f \<Rightarrow> f \<noteq> 0)"

definition run ::
  "('s \<Rightarrow> 'e + 's) \<Rightarrow> ('s \<Rightarrow> display) \<Rightarrow> (nat \<Rightarrow> real) \<Rightarrow> real option \<Rightarrow>
     nat \<Rightarrow> 's \<Rightarrow> 'e event list" where
  "run update disp clock fps n s =
     (if truthy fps then run_with_fps_limit update disp clock fps n s
      else run_without_fps_limit update disp n s)"

primrec is_sleep :: "'e event \<Rightarrow> bool" where
  "is_sleep Update_called = False"
| "is_sleep (Rendered t) = False"
| "is_sleep (Slept t) = True"
| "is_sleep (Uncaught e) = False"

text \<open>
  The frames of an unpaced loop as the specification words them: n times, a call of
  \<open>update\<close> followed by a rendering of the display it left.
\<close>

primrec iterate_hook :: "('s \<Rightarrow> 's) \<Rightarrow> nat \<Rightarrow> 's \<Rightarrow> 's" where
  "iterate_hook u 0 s = s"
| "iterate_hook u (Suc n) s = iterate_hook u n (u s)"

definition unpaced_frames :: "('s \<Rightarrow> 's) \<Rightarrow> ('s \<Rightarrow> display) \<Rightarrow> nat \<Rightarrow> 's \<Rightarrow> 'e event list" where
  "unpaced_frames u disp n s =
     concat (map (\<lambda>i. [Update_called, Rendered (render (disp (iterate_hook u (Suc i) s)))]) [0..<n])"

section \<open>Invariants\<close>

text \<open>
  What the constructor establishes and no method changes: the grid has \<open>size_y\<close> rows
  of \<open>size_x\<close> cells, and the cell in row r, column c carries x = c and y = r.
\<close>

definition wf_display :: "display \<Rightarrow> bool" where
  "wf_display d \<longleftrightarrow>
     map (map (\<lambda>c. (cell_x c, cell_y c))) (grid d) =
     map (\<lambda>row. map (\<lambda>col. (int col, int row)) [0..<nat (size_x d)]) [0..<nat (size_y d)]"

definition valid_ref :: "display \<Rightarrow> cell_ref \<Rightarrow> bool" where
  "valid_ref d ref \<longleftrightarrow> fst ref < nat (size_y d) \<and> snd ref < nat (size_x d)"

definition cell_inv :: "cell \<Rightarrow> bool" where
  "cell_inv c \<longleftrightarrow> (is_active c \<longleftrightarrow> symbol c \<noteq> '' '')"

definition grid_inv :: "display \<Rightarrow> bool" where
  "grid_inv d \<longleftrightarrow> list_all (list_all cell_inv) (grid d)"

text \<open>The symbol an optional argument stands for (\<open>None\<close> is the default glyph).\<close>

definition the_symbol :: "string option \<Rightarrow> string" where
  "the_symbol smb = (case smb of None \<Rightarrow> CELL_DEFAULT_SYMBOL | Some v \<Rightarrow> v)"

section \<open>What drawing and removing compute\<close>

text \<open>
  The specification side of \<open>draw_object\<close>. \<open>in_bounds_offsets\<close> keeps the offsets of
  a form whose absolute coordinates lie on the display; \<open>placed_refs\<close> are the cells they
  land on, in the order of the form; \<open>covering\<close> gives, for a position, the symbol of the
  last offset of the form that lands on it, if there is one.
\<close>

definition in_bounds_offsets ::
  "display \<Rightarrow> int \<Rightarrow> int \<Rightarrow> (int \<times> int \<times> string option) list \<Rightarrow> (int \<times> int \<times> string option) list" where
  "in_bounds_offsets d start_x start_y form =
     filter (\<lambda>t. 0 \<le> start_x + fst t \<and> start_x + fst t < size_x d \<and>
                 0 \<le> start_y + fst (snd t) \<and> start_y + fst (snd t) < size_y d) form"

definition placed_refs ::
  "display \<Rightarrow> int \<Rightarrow> int \<Rightarrow> (int \<times> int \<times> string option) list \<Rightarrow> cell_ref list" where
  "placed_refs d start_x start_y form =
     map (\<lambda>t. (nat (start_y + fst (snd t)), nat (start_x + fst t)))
       (in_bounds_offsets d start_x start_y form)"

primrec covering ::
  "int \<Rightarrow> int \<Rightarrow> (int \<times> int \<times> string option) list \<Rightarrow> int \<Rightarrow> int \<Rightarrow> string option option" where
  "covering start_x start_y [] x y = None"
| "covering start_x start_y (t # rest) x y =
     (case covering start_x start_y rest x y of
        Some s \<Rightarrow> Some s
      | None \<Rightarrow>
          if start_x + fst t = x \<and> start_y + fst (snd t) = y then Some (snd (snd t)) else None)"

text \<open>
  The grid after the loop of \<open>draw_object\<close> and after the loop of \<open>del_object\<close>,
  as plain recursions over the form and over the recorded cells; the loops are shown to
  return exactly these on a well-formed display.
\<close>

primrec paint ::
  "display \<Rightarrow> int \<Rightarrow> int \<Rightarrow> (int \<times> int \<times> string option) list \<Rightarrow> display" where
  "paint d start_x start_y [] = d"
| "paint d start_x start_y (t # rest) =
     (if check_coordinates d (start_x + fst t) (start_y + fst (snd t))
      then paint (mutate d (nat (start_y + fst (snd t)), nat (start_x + fst t))
                    (\<lambda>c. activate c (Some (the_symbol (snd (snd t)))))) start_x start_y rest
      else paint d start_x start_y rest)"

primrec wipe :: "display \<Rightarrow> cell_ref list \<Rightarrow> display" where
  "wipe d [] = d"
| "wipe d (ref # rest) = wipe (mutate d ref deactivate) rest"

text \<open>
  Sequential composition of two operations on the same state, and \<open>move_object\<close> as
  the specification words it: removing the object, then drawing it at the new origin.
\<close>

definition and_then :: "'s outcome \<Rightarrow> ('s \<Rightarrow> 's outcome) \<Rightarrow> 's outcome" where
  "and_then r f = (case r of Raised e s \<Rightarrow> Raised e s | Returned s \<Rightarrow> f s)"

definition remove_then_draw ::
  "display \<Rightarrow> engine_object \<Rightarrow> int \<Rightarrow> int \<Rightarrow> (display \<times> engine_object) outcome" where
  "remove_then_draw d obj new_x new_y =
     and_then (del_object d obj) (\<lambda>s. draw_object (fst s) (snd s) new_x new_y)"

section \<open>Properties of the store and of the invariants\<close>

lemma wf_length: "wf_display d \<Longrightarrow> length (grid d) = nat (size_y d)"
  unfolding wf_display_def by (drule arg_cong [where f = length]) simp

lemma wf_row_length:
  assumes "wf_display d" "r < nat (size_y d)"
  shows "length (grid d ! r) = nat (size_x d)"
proof -
  have len: "r < length (grid d)" using assms wf_length by simp
  from assms(1) have "map (map (\<lambda>c. (cell_x c, cell_y c))) (grid d) ! r =
      map (\<lambda>row. map (\<lambda>col. (int col, int row)) [0..<nat (size_x d)]) [0..<nat (size_y d)] ! r"
    unfolding wf_display_def by simp
  with len assms(2) have "map (\<lambda>c. (cell_x c, cell_y c)) (grid d ! r) =
      map (\<lambda>col. (int col, int r)) [0..<nat (size_x d)]" by simp
  then show ?thesis by (drule_tac arg_cong [where f = length]) simp
qed

lemma wf_coords:
  assumes "wf_display d" "r < nat (size_y d)" "c < nat (size_x d)"
  shows "cell_x (grid d ! r ! c) = int c \<and> cell_y (grid d ! r ! c) = int r"
proof -
  have len: "r < length (grid d)" using assms wf_length by simp
  have rlen: "c < length (grid d ! r)" using assms wf_row_length by simp
  from assms(1) have "map (map (\<lambda>c. (cell_x c, cell_y c))) (grid d) ! r =
      map (\<lambda>row. map (\<lambda>col. (int col, int row)) [0..<nat (size_x d)]) [0..<nat (size_y d)] ! r"
    unfolding wf_display_def by simp
  with len assms(2) have "map (\<lambda>c. (cell_x c, cell_y c)) (grid d ! r) =
      map (\<lambda>col. (int col, int r)) [0..<nat (size_x d)]" by simp
  then have "map (\<lambda>c. (cell_x c, cell_y c)) (grid d ! r) ! c =
      map (\<lambda>col. (int col, int r)) [0..<nat (size_x d)] ! c" by simp
  with rlen assms(3) show ?thesis by simp
qed

lemma wf_Display: "wf_display (Display sx sy)"
  by (simp add: wf_display_def Display_def display_init_def Cell_def comp_def)

lemma cell_at_wf:
  assumes "wf_display d" "check_coordinates d x y"
  shows "cell_at d x y = Inr (nat y, nat x)"
proof -
  have y: "0 \<le> y" "nat y < nat (size_y d)" and x: "0 \<le> x" "nat x < nat (size_x d)"
    using assms(2) by (auto simp: check_coordinates_def)
  have "py_slot (grid d) y = Inr (nat y)"
    using y wf_length [OF assms(1)] by (simp add: py_slot_def)
  moreover have "py_slot (grid d ! nat y) x = Inr (nat x)"
    using x wf_row_length [OF assms(1) y(2)] by (simp add: py_slot_def)
  ultimately show ?thesis by (simp add: cell_at_def)
qed

lemma mutate_sizes [simp]:
  "size_x (mutate d ref f) = size_x d" "size_y (mutate d ref f) = size_y d"
  by (simp_all add: mutate_def)

lemma deref_mutate:
  assumes "wf_display d" "valid_ref d ref" "valid_ref d ref'"
  shows "deref (mutate d ref f) ref' = (if ref' = ref then f (deref d ref) else deref d ref')"
proof -
  obtain r c where ref: "ref = (r, c)" by (cases ref)
  obtain r' c' where ref': "ref' = (r', c')" by (cases ref')
  have b: "r < length (grid d)" "r' < length (grid d)"
    using assms by (simp_all add: valid_ref_def ref ref' wf_length)
  have "c < length (grid d ! r)" "c' < length (grid d ! r')"
    using assms by (simp_all add: valid_ref_def ref ref' wf_row_length)
  with b show ?thesis
    by (cases "r' = r") (simp_all add: deref_def mutate_def ref ref')
qed

lemma map_update_same: "(map g xs)[i := g (xs ! i)] = map g xs"
  by (metis list_update_id map_update)

lemma wf_mutate:
  assumes "wf_display d" "cell_x (f (deref d ref)) = cell_x (deref d ref)"
    "cell_y (f (deref d ref)) = cell_y (deref d ref)"
  shows "wf_display (mutate d ref f)"
proof -
  let ?g = "\<lambda>c. (cell_x c, cell_y c)"
  let ?row = "grid d ! fst ref"
  have "?g (f (deref d ref)) = ?g (?row ! snd ref)"
    using assms(2,3) by (simp add: deref_def)
  then have "map ?g (?row[snd ref := f (deref d ref)]) = (map ?g ?row)[snd ref := ?g (?row ! snd ref)]"
    by (simp only: map_update)
  also have "\<dots> = map ?g ?row" by (rule map_update_same)
  finally have row: "map ?g (?row[snd ref := f (deref d ref)]) = map ?g ?row" .
  have "map (map ?g) ((grid d)[fst ref := ?row[snd ref := f (deref d ref)]]) =
        (map (map ?g) (grid d))[fst ref := map ?g (?row[snd ref := f (deref d ref)])]"
    by (rule map_update)
  also have "\<dots> = (map (map ?g) (grid d))[fst ref := map ?g (grid d ! fst ref)]"
    by (simp only: row)
  also have "\<dots> = map (map ?g) (grid d)" by (rule map_update_same)
  finally show ?thesis using assms(1) by (simp add: wf_display_def mutate_def)
qed

lemma py_slot_bound: "py_slot xs i = Inr k \<Longrightarrow> k < length xs"
  by (auto simp: py_slot_def split: if_splits)

lemma cell_at_bound:
  "cell_at d x y = Inr ref \<Longrightarrow> fst ref < length (grid d) \<and> snd ref < length (grid d ! fst ref)"
  by (auto simp: cell_at_def split: sum.splits dest: py_slot_bound)

lemma list_all_update: "list_all P xs \<Longrightarrow> P v \<Longrightarrow> list_all P (xs[i := v])"
  by (induction xs arbitrary: i) (auto split: nat.splits)

lemma grid_inv_mutate:
  assumes "grid_inv d" "fst ref < length (grid d)" "cell_inv (f (deref d ref))"
  shows "grid_inv (mutate d ref f)"
proof -
  have "list_all cell_inv (grid d ! fst ref)"
    using assms(1,2) by (simp add: grid_inv_def list_all_length)
  then have "list_all cell_inv ((grid d ! fst ref)[snd ref := f (deref d ref)])"
    using assms(3) by (rule list_all_update)
  with assms(1) show ?thesis
    by (simp add: grid_inv_def mutate_def list_all_update)
qed

lemma cell_inv_deactivate: "cell_inv (deactivate c)"
  by (simp add: cell_inv_def deactivate_def EMPTY_CELL_SYMBOL_def)

lemma cell_inv_activate: "smb \<noteq> Some '' '' \<Longrightarrow> cell_inv (activate c smb)"
  by (cases smb) (simp_all add: cell_inv_def activate_def CELL_DEFAULT_SYMBOL_def)

lemma cell_inv_Cell: "cell_inv (Cell x y EMPTY_CELL_SYMBOL)"
  by (simp add: cell_inv_def Cell_def EMPTY_CELL_SYMBOL_def)

lemma grid_inv_Display: "grid_inv (Display sx sy)"
  by (simp add: grid_inv_def Display_def display_init_def list_all_iff cell_inv_Cell)

lemma grid_inv_deactivate_cell:
  assumes "grid_inv d"
  shows "grid_inv (state_of (deactivate_cell d x y))"
proof (cases "check_coordinates d x y")
  case False
  with assms show ?thesis by (simp add: deactivate_cell_def)
next
  case True
  show ?thesis
  proof (cases "cell_at d x y")
    case (Inl e)
    with True assms show ?thesis by (simp add: deactivate_cell_def)
  next
    case (Inr ref)
    then have "fst ref < length (grid d)" by (simp add: cell_at_bound)
    with assms have "grid_inv (mutate d ref deactivate)"
      by (rule grid_inv_mutate) (rule cell_inv_deactivate)
    with True Inr show ?thesis by (simp add: deactivate_cell_def)
  qed
qed

lemma grid_inv_activate_cell:
  assumes "grid_inv d" "smb \<noteq> Some '' ''"
  shows "grid_inv (state_of (activate_cell d x y smb))"
proof (cases "check_coordinates d x y")
  case False
  with assms show ?thesis by (simp add: activate_cell_def)
next
  case True
  let ?s = "case smb of None \<Rightarrow> CELL_DEFAULT_SYMBOL | Some v \<Rightarrow> v"
  have s: "Some ?s \<noteq> Some '' ''"
    using assms(2) by (cases smb) (simp_all add: CELL_DEFAULT_SYMBOL_def)
  show ?thesis
  proof (cases "cell_at d x y")
    case (Inl e)
    with True assms show ?thesis by (simp add: activate_cell_def)
  next
    case (Inr ref)
    then have "fst ref < length (grid d)" by (simp add: cell_at_bound)
    with assms(1) have "grid_inv (mutate d ref (\<lambda>c. activate c (Some ?s)))"
      by (rule grid_inv_mutate) (rule cell_inv_activate [OF s])
    with True Inr show ?thesis by (simp add: activate_cell_def)
  qed
qed

lemma activate_cell_sizes [simp]:
  "size_x (state_of (activate_cell d x y smb)) = size_x d"
  "size_y (state_of (activate_cell d x y smb)) = size_y d"
  by (simp_all add: activate_cell_def Let_def split: sum.splits)

lemma deactivate_cell_sizes [simp]:
  "size_x (state_of (deactivate_cell d x y)) = size_x d"
  "size_y (state_of (deactivate_cell d x y)) = size_y d"
  by (simp_all add: deactivate_cell_def split: sum.splits)

lemma grid_inv_draw_loop:
  "grid_inv d \<Longrightarrow> list_all (\<lambda>t. snd (snd t) \<noteq> Some '' '') form \<Longrightarrow>
   grid_inv (fst (state_of (draw_loop d sx sy form acc)))"
proof (induction form arbitrary: d acc)
  case Nil
  then show ?case by simp
next
  case (Cons t form)
  let ?x = "sx + fst t" and ?y = "sy + fst (snd t)"
  show ?case
  proof (cases "check_coordinates d ?x ?y")
    case False
    with Cons show ?thesis by simp
  next
    case True
    have inv: "grid_inv (state_of (activate_cell d ?x ?y (snd (snd t))))"
      using Cons.prems by (simp add: grid_inv_activate_cell)
    show ?thesis
    proof (cases "activate_cell d ?x ?y (snd (snd t))")
      case (Raised e d')
      with inv True show ?thesis by simp
    next
      case (Returned d')
      with inv have "grid_inv d'" by simp
      with Cons.IH [of d'] Cons.prems(2) True Returned show ?thesis
        by (simp split: sum.splits)
    qed
  qed
qed

lemma grid_inv_del_loop: "grid_inv d \<Longrightarrow> grid_inv (state_of (del_loop d cs))"
proof (induction cs arbitrary: d)
  case Nil
  then show ?case by simp
next
  case (Cons r cs)
  let ?o = "deactivate_cell d (cell_x (deref d r)) (cell_y (deref d r))"
  have "grid_inv (state_of ?o)" using Cons.prems by (rule grid_inv_deactivate_cell)
  then show ?case using Cons.IH by (cases ?o) simp_all
qed

lemma grid_inv_draw_object:
  "grid_inv d \<Longrightarrow> list_all (\<lambda>t. snd (snd t) \<noteq> Some '' '') (object_form obj) \<Longrightarrow>
   grid_inv (fst (state_of (draw_object d obj sx sy)))"
  using grid_inv_draw_loop [of d "object_form obj" sx sy "[]"]
  by (cases "draw_loop d sx sy (object_form obj) []") (auto simp: draw_object_def)

lemma grid_inv_del_object:
  assumes "grid_inv d"
  shows "grid_inv (fst (state_of (del_object d obj)))"
proof (cases "object_coordinates obj")
  case None
  then show ?thesis using assms by (simp add: del_object_def)
next
  case (Some cs)
  from assms have "grid_inv (state_of (del_loop d cs))" by (rule grid_inv_del_loop)
  with Some show ?thesis by (cases "del_loop d cs") (simp_all add: del_object_def)
qed

lemma valid_ref_check:
  "check_coordinates d x y \<Longrightarrow> valid_ref d (nat y, nat x)"
  by (auto simp: check_coordinates_def valid_ref_def)

lemma activate_cell_wf:
  assumes "wf_display d" "check_coordinates d x y"
  shows "activate_cell d x y smb =
         Returned (mutate d (nat y, nat x) (\<lambda>c. activate c (Some (the_symbol smb))))"
  using assms by (simp add: activate_cell_def cell_at_wf the_symbol_def)

lemma deactivate_cell_wf:
  assumes "wf_display d" "check_coordinates d x y"
  shows "deactivate_cell d x y = Returned (mutate d (nat y, nat x) deactivate)"
  using assms by (simp add: deactivate_cell_def cell_at_wf)

lemma check_cell_condition_wf:
  assumes "wf_display d" "check_coordinates d x y"
  shows "check_cell_condition d x y = Inr (is_active (deref d (nat y, nat x)))"
  using assms by (simp add: check_cell_condition_def cell_at_wf)

lemma check_coordinates_mutate [simp]:
  "check_coordinates (mutate d ref f) x y = check_coordinates d x y"
  by (simp add: check_coordinates_def)

lemma valid_ref_mutate [simp]: "valid_ref (mutate d ref f) r = valid_ref d r"
  by (simp add: valid_ref_def)

lemma wf_mutate_activate: "wf_display d \<Longrightarrow> wf_display (mutate d ref (\<lambda>c. activate c smb))"
  by (rule wf_mutate) (simp_all add: activate_def)

lemma wf_mutate_deactivate: "wf_display d \<Longrightarrow> wf_display (mutate d ref deactivate)"
  by (rule wf_mutate) (simp_all add: deactivate_def)

lemma wf_activate_cell: "wf_display d \<Longrightarrow> wf_display (state_of (activate_cell d x y smb))"
  by (cases "check_coordinates d x y")
     (simp_all add: activate_cell_wf wf_mutate_activate, simp add: activate_cell_def)

lemma wf_deactivate_cell: "wf_display d \<Longrightarrow> wf_display (state_of (deactivate_cell d x y))"
  by (cases "check_coordinates d x y")
     (simp_all add: deactivate_cell_wf wf_mutate_deactivate, simp add: deactivate_cell_def)

section \<open>The loops of draw_object and del_object\<close>

lemma activate_the_symbol: "activate c (Some (the_symbol s)) = activate c s"
  by (simp add: activate_def the_symbol_def)

lemma activate_activate: "activate (activate c a) b = activate c b"
  by (simp add: activate_def)

lemma deactivate_deactivate: "deactivate (deactivate c) = deactivate c"
  by (simp add: deactivate_def)

lemma placed_refs_sizes:
  "size_x d' = size_x d \<Longrightarrow> size_y d' = size_y d \<Longrightarrow>
   placed_refs d' sx sy form = placed_refs d sx sy form"
  by (simp add: placed_refs_def in_bounds_offsets_def)

lemma placed_refs_Cons:
  "placed_refs d sx sy (t # form) =
     (if check_coordinates d (sx + fst t) (sy + fst (snd t))
      then (nat (sy + fst (snd t)), nat (sx + fst t)) # placed_refs d sx sy form
      else placed_refs d sx sy form)"
  by (simp add: placed_refs_def in_bounds_offsets_def check_coordinates_def)

lemma match_valid_ref:
  assumes "valid_ref d ref"
  shows "(sx + fst t = int (snd ref) \<and> sy + fst (snd t) = int (fst ref)) \<longleftrightarrow>
         (check_coordinates d (sx + fst t) (sy + fst (snd t)) \<and>
          ref = (nat (sy + fst (snd t)), nat (sx + fst t)))"
  using assms by (cases ref) (auto simp: valid_ref_def check_coordinates_def)

lemma paint_sizes [simp]:
  "size_x (paint d sx sy form) = size_x d" "size_y (paint d sx sy form) = size_y d"
  by (induction form arbitrary: d) simp_all

lemma wf_paint: "wf_display d \<Longrightarrow> wf_display (paint d sx sy form)"
  by (induction form arbitrary: d) (simp_all add: wf_mutate_activate)

lemma draw_loop_paint:
  "wf_display d \<Longrightarrow>
   draw_loop d sx sy form acc = Returned (paint d sx sy form, acc @ placed_refs d sx sy form)"
proof (induction form arbitrary: d acc)
  case Nil
  then show ?case by (simp add: placed_refs_def in_bounds_offsets_def)
next
  case (Cons t form)
  let ?x = "sx + fst t" and ?y = "sy + fst (snd t)"
  show ?case
  proof (cases "check_coordinates d ?x ?y")
    case False
    then show ?thesis using Cons.IH [OF Cons.prems, of acc] by (simp add: placed_refs_Cons)
  next
    case True
    let ?r = "(nat ?y, nat ?x)"
    let ?d1 = "mutate d ?r (\<lambda>c. activate c (Some (the_symbol (snd (snd t)))))"
    have wf1: "wf_display ?d1" using Cons.prems by (rule wf_mutate_activate)
    have act: "activate_cell d ?x ?y (snd (snd t)) = Returned ?d1"
      using Cons.prems True by (rule activate_cell_wf)
    have at: "cell_at ?d1 ?x ?y = Inr ?r"
      using cell_at_wf [OF wf1, of ?x ?y] True by simp
    have pr: "placed_refs ?d1 sx sy form = placed_refs d sx sy form"
      by (rule placed_refs_sizes) simp_all
    have "draw_loop d sx sy (t # form) acc = draw_loop ?d1 sx sy form (acc @ [?r])"
      using True act at by (simp add: Let_def)
    also have "\<dots> = Returned (paint ?d1 sx sy form, (acc @ [?r]) @ placed_refs ?d1 sx sy form)"
      using wf1 by (rule Cons.IH)
    finally show ?thesis using True by (simp add: placed_refs_Cons pr)
  qed
qed

lemma deref_paint:
  "wf_display d \<Longrightarrow> valid_ref d ref \<Longrightarrow>
   deref (paint d sx sy form) ref =
     (case covering sx sy form (int (snd ref)) (int (fst ref)) of
        None \<Rightarrow> deref d ref
      | Some s \<Rightarrow> activate (deref d ref) s)"
proof (induction form arbitrary: d)
  case Nil
  then show ?case by simp
next
  case (Cons t form)
  let ?x = "sx + fst t" and ?y = "sy + fst (snd t)"
  note m = match_valid_ref [OF Cons.prems(2), of sx t sy]
  show ?case
  proof (cases "check_coordinates d ?x ?y")
    case False
    with m have "\<not> (?x = int (snd ref) \<and> ?y = int (fst ref))" by simp
    with False Cons.IH [OF Cons.prems] show ?thesis
      by (cases "covering sx sy form (int (snd ref)) (int (fst ref))") auto
  next
    case True
    let ?r = "(nat ?y, nat ?x)"
    let ?d1 = "mutate d ?r (\<lambda>c. activate c (Some (the_symbol (snd (snd t)))))"
    have wf1: "wf_display ?d1" using Cons.prems(1) by (rule wf_mutate_activate)
    have v: "valid_ref d ?r" using True by (rule valid_ref_check)
    have v1: "valid_ref ?d1 ref" using Cons.prems(2) by simp
    have d1: "deref ?d1 ref =
          (if ref = ?r then activate (deref d ref) (snd (snd t)) else deref d ref)"
      using deref_mutate [OF Cons.prems(1) v Cons.prems(2)] by (simp add: activate_the_symbol)
    have mt: "(?x = int (snd ref) \<and> ?y = int (fst ref)) \<longleftrightarrow> ref = ?r"
      using m True by simp
    have "deref (paint d sx sy (t # form)) ref = deref (paint ?d1 sx sy form) ref"
      using True by simp
    also have "\<dots> = (case covering sx sy form (int (snd ref)) (int (fst ref)) of
        None \<Rightarrow> deref ?d1 ref | Some s \<Rightarrow> activate (deref ?d1 ref) s)"
      using wf1 v1 by (rule Cons.IH)
    also have "\<dots> = (case covering sx sy (t # form) (int (snd ref)) (int (fst ref)) of
        None \<Rightarrow> deref d ref | Some s \<Rightarrow> activate (deref d ref) s)"
      unfolding d1 covering.simps mt
      by (cases "covering sx sy form (int (snd ref)) (int (fst ref))")
         (simp_all add: activate_activate)
    finally show ?thesis .
  qed
qed

lemma wipe_sizes [simp]:
  "size_x (wipe d cs) = size_x d" "size_y (wipe d cs) = size_y d"
  by (induction cs arbitrary: d) simp_all

lemma wf_wipe: "wf_display d \<Longrightarrow> wf_display (wipe d cs)"
  by (induction cs arbitrary: d) (simp_all add: wf_mutate_deactivate)

lemma deref_fields:
  "wf_display d \<Longrightarrow> valid_ref d ref \<Longrightarrow>
   cell_x (deref d ref) = int (snd ref) \<and> cell_y (deref d ref) = int (fst ref)"
  using wf_coords [of d "fst ref" "snd ref"] by (simp add: valid_ref_def deref_def)

lemma del_loop_wipe:
  "wf_display d \<Longrightarrow> list_all (valid_ref d) cs \<Longrightarrow> del_loop d cs = Returned (wipe d cs)"
proof (induction cs arbitrary: d)
  case Nil
  then show ?case by simp
next
  case (Cons ref cs)
  let ?d1 = "mutate d ref deactivate"
  have v: "valid_ref d ref" using Cons.prems(2) by simp
  have f: "cell_x (deref d ref) = int (snd ref)" "cell_y (deref d ref) = int (fst ref)"
    using deref_fields [OF Cons.prems(1) v] by simp_all
  have chk: "check_coordinates d (int (snd ref)) (int (fst ref))"
    using v by (simp add: valid_ref_def check_coordinates_def zless_nat_eq_int_zless)
  have "deactivate_cell d (int (snd ref)) (int (fst ref)) = Returned ?d1"
    using deactivate_cell_wf [OF Cons.prems(1) chk] by simp
  moreover have "del_loop ?d1 cs = Returned (wipe ?d1 cs)"
    using Cons.prems by (intro Cons.IH wf_mutate_deactivate) (simp_all add: list_all_iff)
  ultimately show ?case by (simp add: f)
qed

lemma deref_wipe:
  "wf_display d \<Longrightarrow> list_all (valid_ref d) cs \<Longrightarrow> valid_ref d ref \<Longrightarrow>
   deref (wipe d cs) ref = (if ref \<in> set cs then deactivate (deref d ref) else deref d ref)"
proof (induction cs arbitrary: d)
  case Nil
  then show ?case by simp
next
  case (Cons r cs)
  let ?d1 = "mutate d r deactivate"
  have v: "valid_ref d r" using Cons.prems(2) by simp
  have d1: "deref ?d1 ref = (if ref = r then deactivate (deref d r) else deref d ref)"
    using Cons.prems(1) v Cons.prems(3) by (rule deref_mutate)
  have "deref (wipe ?d1 cs) ref =
      (if ref \<in> set cs then deactivate (deref ?d1 ref) else deref ?d1 ref)"
    using Cons.prems by (intro Cons.IH wf_mutate_deactivate) (simp_all add: list_all_iff)
  then show ?case unfolding d1 by (simp add: deactivate_deactivate)
qed

lemma covering_None_iff:
  "covering sx sy form x y = None \<longleftrightarrow>
   (\<forall>t \<in> set form. \<not> (sx + fst t = x \<and> sy + fst (snd t) = y))"
  by (induction form) (auto split: option.splits)

lemma valid_placed_refs: "list_all (valid_ref d) (placed_refs d sx sy form)"
  by (auto simp: list_all_iff placed_refs_def in_bounds_offsets_def valid_ref_def)

lemma placed_refs_covered:
  assumes "ref \<in> set (placed_refs d sx sy form)"
  shows "covering sx sy form (int (snd ref)) (int (fst ref)) \<noteq> None"
proof -
  from assms obtain t where t: "t \<in> set form" "0 \<le> sx + fst t" "0 \<le> sy + fst (snd t)"
    "ref = (nat (sy + fst (snd t)), nat (sx + fst t))"
    by (auto simp: placed_refs_def in_bounds_offsets_def)
  then have "sx + fst t = int (snd ref) \<and> sy + fst (snd t) = int (fst ref)" by simp
  with t(1) show ?thesis unfolding covering_None_iff by blast
qed

lemma draw_object_paint:
  assumes "wf_display d"
  shows "draw_object d obj sx sy =
     Returned (paint d sx sy (object_form obj),
               obj\<lparr>object_coordinates := Some (placed_refs d sx sy (object_form obj))\<rparr>)"
  using draw_loop_paint [OF assms, of sx sy "object_form obj" "[]"]
  by (simp add: draw_object_def init_object_coordinates_def)

lemma del_object_wipe:
  assumes "wf_display d" "object_coordinates obj = Some cs" "list_all (valid_ref d) cs"
  shows "del_object d obj = Returned (wipe d cs, obj\<lparr>object_coordinates := None\<rparr>)"
  using del_loop_wipe [OF assms(1,3)] assms(2)
  by (simp add: del_object_def del_object_coordinates_def)

lemma activate_fields:
  "activate c s = c\<lparr>symbol := the_symbol s, is_active := True\<rparr>"
  by (simp add: activate_def the_symbol_def)

lemma deactivate_fields: "deactivate c = c\<lparr>symbol := '' '', is_active := False\<rparr>"
  by (simp add: deactivate_def EMPTY_CELL_SYMBOL_def)

lemma ref_of_coordinates:
  assumes "0 \<le> x" "x < size_x d" "0 \<le> y" "y < size_y d"
  shows "valid_ref d (nat y, nat x)" "check_coordinates d x y"
  using assms by (simp_all add: valid_ref_def check_coordinates_def)

lemma mem_placed_refs:
  assumes "t \<in> set form" "check_coordinates d (sx + fst t) (sy + fst (snd t))"
  shows "(nat (sy + fst (snd t)), nat (sx + fst t)) \<in> set (placed_refs d sx sy form)"
proof -
  have "t \<in> set (in_bounds_offsets d sx sy form)"
    using assms by (simp add: in_bounds_offsets_def check_coordinates_def)
  then show ?thesis unfolding placed_refs_def set_map by (rule imageI)
qed

lemma covered_placed_refs:
  assumes "valid_ref d ref" "covering sx sy form (int (snd ref)) (int (fst ref)) \<noteq> None"
  shows "ref \<in> set (placed_refs d sx sy form)"
proof -
  from assms(2) obtain t where t: "t \<in> set form"
    "sx + fst t = int (snd ref) \<and> sy + fst (snd t) = int (fst ref)"
    unfolding covering_None_iff by blast
  from t(2) match_valid_ref [OF assms(1), of sx t sy]
  have "check_coordinates d (sx + fst t) (sy + fst (snd t))"
    and "ref = (nat (sy + fst (snd t)), nat (sx + fst t))" by simp_all
  with mem_placed_refs [OF t(1)] show ?thesis by simp
qed

section \<open>Rendering and the frame loop\<close>

lemma foldl_lines:
  "foldl (\<lambda>buf row. buf @ concat (map symbol row) @ [CHR 0x0A]) acc rows =
   acc @ concat (map (\<lambda>l. l @ [CHR 0x0A]) (map (\<lambda>row. concat (map symbol row)) rows))"
  by (induction rows arbitrary: acc) simp_all

lemma render_eq:
  "render d = [CHR 0x1B # ''[H'', concat (map (\<lambda>l. l @ [CHR 0x0A]) (render_lines d)) @ [CHR 0x0A]]"
  by (simp add: render_def render_lines_def foldl_lines)

lemma concat_singletons:
  "list_all (\<lambda>c. length (f c) = 1) row \<Longrightarrow> length (concat (map f row)) = length row"
  by (induction row) simp_all

lemma render_lines_width:
  assumes "wf_display d" "list_all (list_all (\<lambda>c. length (symbol c) = 1)) (grid d)"
  shows "list_all (\<lambda>l. length l = nat (size_x d)) (render_lines d)"
proof -
  have "length (concat (map symbol row)) = nat (size_x d)" if "row \<in> set (grid d)" for row
  proof -
    from that obtain r where r: "r < length (grid d)" "row = grid d ! r"
      by (auto simp: in_set_conv_nth)
    then have "length row = nat (size_x d)" using assms(1) by (simp add: wf_length wf_row_length)
    moreover have "list_all (\<lambda>c. length (symbol c) = 1) row"
      using assms(2) that by (simp add: list_all_iff)
    ultimately show ?thesis by (simp add: concat_singletons)
  qed
  then show ?thesis by (simp add: render_lines_def list_all_iff)
qed

lemma render_lines_example:
  assumes "wf_display d" "0 < size_x d" "0 < size_y d"
    and "symbol (deref d (0, 0)) = ''X''"
    and "\<forall>ref. valid_ref d ref \<and> ref \<noteq> (0, 0) \<longrightarrow> symbol (deref d ref) = '' ''"
  shows "render_lines d =
     (''X'' @ replicate (nat (size_x d) - 1) CHR '' '') #
     replicate (nat (size_y d) - 1) (replicate (nat (size_x d)) CHR '' '')"
proof -
  let ?w = "nat (size_x d)" and ?h = "nat (size_y d)"
  have w: "0 < ?w" and h: "0 < ?h" using assms(2,3) by simp_all
  have row: "map symbol (grid d ! r) =
      (if r = 0 then ''X'' # replicate (?w - 1) '' '' else replicate ?w '' '')"
    if r: "r < ?h" for r
  proof (rule nth_equalityI)
    show "length (map symbol (grid d ! r)) =
        length (if r = 0 then ''X'' # replicate (?w - 1) '' '' else replicate ?w '' '')"
      using wf_row_length [OF assms(1) r] w by simp
  next
    fix c assume "c < length (map symbol (grid d ! r))"
    then have c: "c < ?w" using wf_row_length [OF assms(1) r] by simp
    then have v: "valid_ref d (r, c)" using r by (simp add: valid_ref_def)
    have len: "c < length (grid d ! r)" using c wf_row_length [OF assms(1) r] by simp
    show "map symbol (grid d ! r) ! c =
        (if r = 0 then ''X'' # replicate (?w - 1) '' '' else replicate ?w '' '') ! c"
    proof (cases "r = 0 \<and> c = 0")
      case True
      with assms(4) len show ?thesis by (simp add: deref_def)
    next
      case False
      then have "symbol (deref d (r, c)) = '' ''" using assms(5) v by simp
      with False len c show ?thesis by (auto simp: deref_def nth_Cons split: nat.splits)
    qed
  qed
  have cr: "concat (replicate n '' '') = replicate n CHR '' ''" for n
    by (induction n) simp_all
  show ?thesis
  proof (rule nth_equalityI)
    show "length (render_lines d) =
        length ((''X'' @ replicate (?w - 1) CHR '' '') # replicate (?h - 1) (replicate ?w CHR '' ''))"
      using h by (simp add: render_lines_def wf_length [OF assms(1)])
  next
    fix r assume "r < length (render_lines d)"
    then have r: "r < ?h" by (simp add: render_lines_def wf_length [OF assms(1)])
    then have "render_lines d ! r = concat (map symbol (grid d ! r))"
      by (simp add: render_lines_def wf_length [OF assms(1)])
    with row [OF r] r show "render_lines d ! r =
        ((''X'' @ replicate (?w - 1) CHR '' '') # replicate (?h - 1) (replicate ?w CHR '' '')) ! r"
      by (auto simp: cr nth_Cons split: nat.splits)
  qed
qed

lemma no_sleep_without: "\<not> list_ex is_sleep (run_without_fps_limit update disp n s)"
  by (induction n arbitrary: s) (simp_all split: sum.splits)

lemma unpaced_frames_Suc:
  "unpaced_frames u disp (Suc n) s =
     Update_called # Rendered (render (disp (u s))) # unpaced_frames u disp n (u s)"
proof -
  have "[0..<Suc n] = 0 # map Suc [0..<n]" by (simp add: upt_conv_Cons map_Suc_upt del: upt_Suc)
  then show ?thesis by (simp add: unpaced_frames_def comp_def del: upt_Suc)
qed

lemma without_frames:
  "run_without_fps_limit (\<lambda>s. Inr (u s)) disp n s = unpaced_frames u disp n s"
proof (induction n arbitrary: s)
  case 0
  show ?case by (simp add: unpaced_frames_def)
next
  case (Suc n)
  then show ?case by (simp add: unpaced_frames_Suc)
qed

section \<open>Single-cell operations\<close>

text \<open>
  Claim C5. The bounds predicate holds exactly when \<open>0 \<le> x < size_x\<close> and
  \<open>0 \<le> y < size_y\<close>. For coordinates outside these bounds, and for every grid state,
  \<open>activate_cell\<close> and \<open>deactivate_cell\<close> return without raising and leave the
  display as it was, and \<open>check_cell_condition\<close> returns False without raising.
\<close>

theorem out_of_bounds_noop:
  "(check_coordinates d x y \<longleftrightarrow> 0 \<le> x \<and> x < size_x d \<and> 0 \<le> y \<and> y < size_y d) \<and>
   (\<not> (0 \<le> x \<and> x < size_x d \<and> 0 \<le> y \<and> y < size_y d) \<longrightarrow>
      activate_cell d x y smb = Returned d \<and>
      deactivate_cell d x y = Returned d \<and>
      check_cell_condition d x y = Inr False)"
  by (simp add: check_coordinates_def activate_cell_def deactivate_cell_def
      check_cell_condition_def)

theorem out_of_bounds_noop_witness:
  "\<not> (0 \<le> (5::int) \<and> 5 < size_x (Display 3 2) \<and> 0 \<le> (-1::int) \<and> -1 < size_y (Display 3 2)) \<and>
   \<not> check_coordinates (Display 3 2) 5 (-1) \<and>
   activate_cell (Display 3 2) 5 (-1) (Some ''A'') = Returned (Display 3 2) \<and>
   deactivate_cell (Display 3 2) 5 (-1) = Returned (Display 3 2) \<and>
   check_cell_condition (Display 3 2) 5 (-1) = Inr False"
  using out_of_bounds_noop [of "Display 3 2" 5 "-1" "Some ''A''"]
  by (simp add: Display_def)

text \<open>
  Claim C7. On a display as the constructor builds it, for in-bounds coordinates and
  every symbol argument: \<open>activate_cell\<close> returns, the query then answers True and the
  cell \<open>display[y][x]\<close> carries the symbol given (the glyph \<open>#\<close> when it is None);
  a following \<open>deactivate_cell\<close> returns and leaves that cell inactive with the symbol
  of an empty cell, a single space.
\<close>

theorem activate_query_deactivate:
  assumes "wf_display d" "0 \<le> x" "x < size_x d" "0 \<le> y" "y < size_y d"
  shows "\<exists>d1 d2.
           activate_cell d x y smb = Returned d1 \<and>
           check_cell_condition d1 x y = Inr True \<and>
           cell_at d1 x y = Inr (nat y, nat x) \<and>
           symbol (deref d1 (nat y, nat x)) = (case smb of None \<Rightarrow> ''#'' | Some s \<Rightarrow> s) \<and>
           deactivate_cell d1 x y = Returned d2 \<and>
           check_cell_condition d2 x y = Inr False \<and>
           cell_at d2 x y = Inr (nat y, nat x) \<and>
           \<not> is_active (deref d2 (nat y, nat x)) \<and>
           symbol (deref d2 (nat y, nat x)) = '' ''"
proof -
  let ?r = "(nat y, nat x)"
  let ?d1 = "mutate d ?r (\<lambda>c. activate c (Some (the_symbol smb)))"
  let ?d2 = "mutate ?d1 ?r deactivate"
  have chk: "check_coordinates d x y" using assms(2-5) by (simp add: check_coordinates_def)
  then have v: "valid_ref d ?r" by (rule valid_ref_check)
  have wf1: "wf_display ?d1" using assms(1) by (rule wf_mutate_activate)
  have wf2: "wf_display ?d2" using wf1 by (rule wf_mutate_deactivate)
  have c1: "deref ?d1 ?r = activate (deref d ?r) (Some (the_symbol smb))"
    using assms(1) v by (simp add: deref_mutate)
  have c2: "deref ?d2 ?r = deactivate (deref ?d1 ?r)"
    using wf1 v by (simp add: deref_mutate)
  have a1: "is_active (deref ?d1 ?r)"
    and s1: "symbol (deref ?d1 ?r) = (case smb of None \<Rightarrow> ''#'' | Some s \<Rightarrow> s)"
    unfolding c1
    by (simp_all add: activate_def the_symbol_def CELL_DEFAULT_SYMBOL_def split: option.splits)
  have a2: "\<not> is_active (deref ?d2 ?r)" and s2: "symbol (deref ?d2 ?r) = '' ''"
    unfolding c2 by (simp_all add: deactivate_def EMPTY_CELL_SYMBOL_def)
  have "activate_cell d x y smb = Returned ?d1"
    using assms(1) chk by (rule activate_cell_wf)
  moreover have "check_cell_condition ?d1 x y = Inr True"
    using check_cell_condition_wf [OF wf1, of x y] chk a1 by simp
  moreover have "cell_at ?d1 x y = Inr ?r" using cell_at_wf [OF wf1, of x y] chk by simp
  moreover have "deactivate_cell ?d1 x y = Returned ?d2"
    using deactivate_cell_wf [OF wf1, of x y] chk by simp
  moreover have "check_cell_condition ?d2 x y = Inr False"
    using check_cell_condition_wf [OF wf2, of x y] chk a2 by simp
  moreover have "cell_at ?d2 x y = Inr ?r" using cell_at_wf [OF wf2, of x y] chk by simp
  moreover note s1 a2 s2
  ultimately show ?thesis by blast
qed

theorem activate_query_deactivate_witness:
  "wf_display (Display 3 2) \<and> (0::int) \<le> 2 \<and> 2 < size_x (Display 3 2) \<and>
   (0::int) \<le> 1 \<and> 1 < size_y (Display 3 2) \<and>
   (\<exists>d1 d2.
      activate_cell (Display 3 2) 2 1 (Some ''A'') = Returned d1 \<and>
      check_cell_condition d1 2 1 = Inr True \<and>
      cell_at d1 2 1 = Inr (1, 2) \<and>
      symbol (deref d1 (1, 2)) = ''A'' \<and>
      deactivate_cell d1 2 1 = Returned d2 \<and>
      check_cell_condition d2 2 1 = Inr False \<and>
      cell_at d2 2 1 = Inr (1, 2) \<and>
      \<not> is_active (deref d2 (1, 2)) \<and>
      symbol (deref d2 (1, 2)) = '' '')"
proof -
  have h: "wf_display (Display 3 2)" "(0::int) \<le> 2" "2 < size_x (Display 3 2)"
    "(0::int) \<le> 1" "1 < size_y (Display 3 2)"
    by (simp_all add: wf_Display) (simp_all add: Display_def)
  from activate_query_deactivate [OF h, of "Some ''A''"] h show ?thesis by simp
qed

text \<open>
  Claim C3, as stated: after construction every cell has
  \<open>is_active = (symbol \<noteq> space)\<close>, and every activation and deactivation keeps it
  so, for every symbol argument. Activating a cell with the symbol of an empty cell breaks
  it: the cell is active and shows a space.
\<close>

theorem cell_invariant_counterexample:
  "grid_inv (Display 1 1) \<and>
   activate_cell (Display 1 1) 0 0 (Some '' '') =
     Returned \<lparr>size_x = 1, size_y = 1,
       grid = [[\<lparr>cell_x = 0, cell_y = 0, symbol = '' '', is_active = True\<rparr>]]\<rparr> \<and>
   \<not> grid_inv (state_of (activate_cell (Display 1 1) 0 0 (Some '' '')))"
  by code_simp

text \<open>
  Claim C3, amended: the equivalence holds for every cell after construction; it is kept
  by every deactivation, by every activation whose symbol argument is not the single
  space (None stands for \<open>#\<close>), by \<open>del_object\<close>, and by \<open>draw_object\<close> of a form
  none of whose symbols is the single space. This holds whether the operation returns or
  raises.
\<close>

theorem cell_invariant_amended:
  "grid_inv (Display sx sy) \<and>
   (grid_inv d \<longrightarrow> grid_inv (state_of (deactivate_cell d x y))) \<and>
   (grid_inv d \<and> smb \<noteq> Some '' '' \<longrightarrow> grid_inv (state_of (activate_cell d x y smb))) \<and>
   (grid_inv d \<longrightarrow> grid_inv (fst (state_of (del_object d obj)))) \<and>
   (grid_inv d \<and> list_all (\<lambda>t. snd (snd t) \<noteq> Some '' '') (object_form obj) \<longrightarrow>
      grid_inv (fst (state_of (draw_object d obj start_x start_y))))"
  by (simp add: grid_inv_Display grid_inv_deactivate_cell grid_inv_activate_cell
      grid_inv_del_object grid_inv_draw_object)

theorem cell_invariant_amended_witness:
  "grid_inv (Display 2 2) \<and> Some ''A'' \<noteq> Some '' '' \<and>
   list_all (\<lambda>t. snd (snd t) \<noteq> Some '' '') (object_form (EngineObject [(0, 0, Some ''A'')])) \<and>
   grid_inv (state_of (deactivate_cell (Display 2 2) 1 1)) \<and>
   grid_inv (state_of (activate_cell (Display 2 2) 1 1 (Some ''A''))) \<and>
   grid_inv (fst (state_of (del_object (Display 2 2) (EngineObject [(0, 0, Some ''A'')])))) \<and>
   grid_inv (fst (state_of (draw_object (Display 2 2) (EngineObject [(0, 0, Some ''A'')]) 1 1)))"
  using cell_invariant_amended
    [of 2 2 "Display 2 2" 1 1 "Some ''A''" "EngineObject [(0, 0, Some ''A'')]" 1 1]
  by (simp add: EngineObject_def)

section \<open>Objects\<close>

text \<open>
  Claim C1. On a well-formed display \<open>draw_object\<close> returns for every object and every
  origin. Afterwards the object's \<open>object_coordinates\<close> is the list of the cells of the
  in-bounds offsets, in the order of the form, and an out-of-bounds offset contributes
  nothing to it. Every cell of the grid that an offset of the form lands on is active
  with the symbol of the last such offset (\<open>#\<close> when that symbol is None), and every
  other cell is as it was. The witness is the example of the claim: the form
  (0,0,A), (1000,1000,B) drawn at (0,0) on a 10 x 10 display leaves exactly one active
  cell, (0,0) with A, and one recorded cell.
\<close>

theorem draw_object_effect:
  assumes "wf_display d"
  shows "\<exists>d'. draw_object d obj start_x start_y =
            Returned (d', obj\<lparr>object_coordinates :=
              Some (map (\<lambda>t. (nat (start_y + fst (snd t)), nat (start_x + fst t)))
                     (in_bounds_offsets d start_x start_y (object_form obj)))\<rparr>) \<and>
          wf_display d' \<and> size_x d' = size_x d \<and> size_y d' = size_y d \<and>
          (\<forall>x y. 0 \<le> x \<and> x < size_x d \<and> 0 \<le> y \<and> y < size_y d \<longrightarrow>
             cell_at d' x y = Inr (nat y, nat x) \<and>
             deref d' (nat y, nat x) =
               (case covering start_x start_y (object_form obj) x y of
                  None \<Rightarrow> deref d (nat y, nat x)
                | Some s \<Rightarrow> (deref d (nat y, nat x))\<lparr>symbol := the_symbol s, is_active := True\<rparr>))"
proof (intro exI conjI allI impI)
  let ?d' = "paint d start_x start_y (object_form obj)"
  show "draw_object d obj start_x start_y =
            Returned (?d', obj\<lparr>object_coordinates :=
              Some (map (\<lambda>t. (nat (start_y + fst (snd t)), nat (start_x + fst t)))
                     (in_bounds_offsets d start_x start_y (object_form obj)))\<rparr>)"
    using draw_object_paint [OF assms] by (simp add: placed_refs_def)
  show wf': "wf_display ?d'" using assms by (rule wf_paint)
  show "size_x ?d' = size_x d" "size_y ?d' = size_y d" by simp_all
  fix x y
  assume b: "0 \<le> x \<and> x < size_x d \<and> 0 \<le> y \<and> y < size_y d"
  then have v: "valid_ref d (nat y, nat x)" and c: "check_coordinates d x y"
    by (simp_all add: ref_of_coordinates)
  show "cell_at ?d' x y = Inr (nat y, nat x)"
    using wf' c by (intro cell_at_wf) (simp_all add: check_coordinates_def)
  show "deref ?d' (nat y, nat x) =
               (case covering start_x start_y (object_form obj) x y of
                  None \<Rightarrow> deref d (nat y, nat x)
                | Some s \<Rightarrow> (deref d (nat y, nat x))\<lparr>symbol := the_symbol s, is_active := True\<rparr>)"
    using deref_paint [OF assms v, of start_x start_y "object_form obj"] b
    by (simp add: activate_fields split: option.splits)
qed

theorem draw_object_effect_witness:
  "wf_display (Display 10 10) \<and>
   (\<exists>d'. draw_object (Display 10 10)
            (EngineObject [(0, 0, Some ''A''), (1000, 1000, Some ''B'')]) 0 0 =
          Returned (d', \<lparr>object_form = [(0, 0, Some ''A''), (1000, 1000, Some ''B'')],
                         object_coordinates = Some [(0, 0)]\<rparr>) \<and>
          wf_display d' \<and>
          map (\<lambda>c. (cell_x c, cell_y c, symbol c)) (filter is_active (concat (grid d'))) =
            [(0, 0, ''A'')])"
proof -
  let ?obj = "EngineObject [(0, 0, Some ''A''), (1000, 1000, Some ''B'')]"
  let ?D = "mutate (Display 10 10) (0, 0) (\<lambda>c. activate c (Some ''A''))"
  have ev: "draw_object (Display 10 10) ?obj 0 0 =
      Returned (?D, \<lparr>object_form = [(0, 0, Some ''A''), (1000, 1000, Some ''B'')],
                     object_coordinates = Some [(0, 0)]\<rparr>)"
    by code_simp
  have act: "map (\<lambda>c. (cell_x c, cell_y c, symbol c)) (filter is_active (concat (grid ?D))) =
      [(0, 0, ''A'')]"
    by code_simp
  from draw_object_effect [OF wf_Display, of 10 10 ?obj 0 0] obtain d' where
    "draw_object (Display 10 10) ?obj 0 0 =
       Returned (d', ?obj\<lparr>object_coordinates :=
         Some (map (\<lambda>t. (nat (0 + fst (snd t)), nat (0 + fst t)))
                (in_bounds_offsets (Display 10 10) 0 0 (object_form ?obj)))\<rparr>)"
    and wf: "wf_display d'"
    by blast
  with ev have "d' = ?D" by simp
  with wf ev act show ?thesis by (simp add: wf_Display)
qed

text \<open>
  Claim C6. \<open>del_object\<close> on an object whose \<open>object_coordinates\<close> is None raises
  TypeError (the loop iterates None) and leaves display and object as they were. On a
  placed object, whose recorded cells are cells of the display, it returns, every
  recorded cell is inactive with the symbol of an empty cell, every other cell is as it
  was, and \<open>object_coordinates\<close> is None again.
\<close>

theorem del_object_effect:
  "(object_coordinates obj = None \<longrightarrow> del_object d obj = Raised TypeError (d, obj)) \<and>
   (wf_display d \<and> object_coordinates obj = Some cs \<and> list_all (valid_ref d) cs \<longrightarrow>
      (\<exists>d'. del_object d obj = Returned (d', obj\<lparr>object_coordinates := None\<rparr>) \<and>
            wf_display d' \<and> size_x d' = size_x d \<and> size_y d' = size_y d \<and>
            (\<forall>ref. valid_ref d ref \<longrightarrow>
               deref d' ref =
                 (if ref \<in> set cs then (deref d ref)\<lparr>symbol := '' '', is_active := False\<rparr>
                  else deref d ref))))"
proof (intro conjI impI)
  assume "object_coordinates obj = None"
  then show "del_object d obj = Raised TypeError (d, obj)" by (simp add: del_object_def)
next
  assume a: "wf_display d \<and> object_coordinates obj = Some cs \<and> list_all (valid_ref d) cs"
  then have wf: "wf_display d" and cs: "list_all (valid_ref d) cs" by simp_all
  show "\<exists>d'. del_object d obj = Returned (d', obj\<lparr>object_coordinates := None\<rparr>) \<and>
            wf_display d' \<and> size_x d' = size_x d \<and> size_y d' = size_y d \<and>
            (\<forall>ref. valid_ref d ref \<longrightarrow>
               deref d' ref =
                 (if ref \<in> set cs then (deref d ref)\<lparr>symbol := '' '', is_active := False\<rparr>
                  else deref d ref))"
  proof (intro exI conjI allI impI)
    show "del_object d obj = Returned (wipe d cs, obj\<lparr>object_coordinates := None\<rparr>)"
      using a by (simp add: del_object_wipe)
    show "wf_display (wipe d cs)" using wf by (rule wf_wipe)
    show "size_x (wipe d cs) = size_x d" "size_y (wipe d cs) = size_y d" by simp_all
    fix ref assume "valid_ref d ref"
    with wf cs show "deref (wipe d cs) ref =
        (if ref \<in> set cs then (deref d ref)\<lparr>symbol := '' '', is_active := False\<rparr>
         else deref d ref)"
      by (simp add: deref_wipe deactivate_fields)
  qed
qed

theorem del_object_effect_witness:
  "object_coordinates (EngineObject [(0, 0, Some ''A'')]) = None \<and>
   del_object (Display 2 2) (EngineObject [(0, 0, Some ''A'')]) =
     Raised TypeError (Display 2 2, EngineObject [(0, 0, Some ''A'')]) \<and>
   wf_display (state_of (activate_cell (Display 2 2) 1 0 (Some ''A''))) \<and>
   list_all (valid_ref (state_of (activate_cell (Display 2 2) 1 0 (Some ''A'')))) [(0, 1)] \<and>
   (\<exists>d'. del_object (state_of (activate_cell (Display 2 2) 1 0 (Some ''A'')))
            \<lparr>object_form = [(0, 0, Some ''A'')], object_coordinates = Some [(0, 1)]\<rparr> =
          Returned (d', \<lparr>object_form = [(0, 0, Some ''A'')], object_coordinates = None\<rparr>) \<and>
          grid d' = grid (Display 2 2))"
proof -
  let ?d = "state_of (activate_cell (Display 2 2) 1 0 (Some ''A''))"
  let ?obj = "\<lparr>object_form = [(0, 0, Some ''A'')], object_coordinates = Some [(0::nat, 1::nat)]\<rparr>"
  have wf: "wf_display ?d" by (intro wf_activate_cell wf_Display)
  have v: "list_all (valid_ref ?d) [(0, 1)]" by (simp add: valid_ref_def Display_def)
  have n: "object_coordinates (EngineObject [(0, 0, Some ''A'')]) = None"
    by (simp add: EngineObject_def)
  have ev: "del_object ?d ?obj =
      Returned (Display 2 2, \<lparr>object_form = [(0, 0, Some ''A'')], object_coordinates = None\<rparr>)"
    by code_simp
  from del_object_effect [of "EngineObject [(0, 0, Some ''A'')]" "Display 2 2"] n
  have "del_object (Display 2 2) (EngineObject [(0, 0, Some ''A'')]) =
     Raised TypeError (Display 2 2, EngineObject [(0, 0, Some ''A'')])" by simp
  moreover from del_object_effect [of ?obj ?d "[(0, 1)]"] wf v
  obtain d' where "del_object ?d ?obj = Returned (d', ?obj\<lparr>object_coordinates := None\<rparr>)"
    by auto
  ultimately show ?thesis using wf v n ev by simp
qed

text \<open>
  Claim C2. On a well-formed display, for every object and origin, \<open>draw_object\<close>
  followed by \<open>del_object\<close> returns; afterwards \<open>object_coordinates\<close> is None, every
  cell an in-bounds offset landed on is inactive with the symbol of an empty cell, and
  every cell no offset landed on is as it was before the draw. The object need not be
  unplaced for this.
\<close>

theorem draw_del_roundtrip:
  assumes "wf_display d"
  shows "\<exists>d1 obj1 d2 obj2.
           draw_object d obj start_x start_y = Returned (d1, obj1) \<and>
           del_object d1 obj1 = Returned (d2, obj2) \<and>
           object_coordinates obj2 = None \<and> object_form obj2 = object_form obj \<and>
           wf_display d2 \<and> size_x d2 = size_x d \<and> size_y d2 = size_y d \<and>
           (\<forall>t \<in> set (object_form obj).
              check_coordinates d (start_x + fst t) (start_y + fst (snd t)) \<longrightarrow>
                check_cell_condition d2 (start_x + fst t) (start_y + fst (snd t)) = Inr False \<and>
                deref d2 (nat (start_y + fst (snd t)), nat (start_x + fst t)) =
                  (deref d (nat (start_y + fst (snd t)), nat (start_x + fst t)))
                    \<lparr>symbol := '' '', is_active := False\<rparr>) \<and>
           (\<forall>x y. check_coordinates d x y \<and> covering start_x start_y (object_form obj) x y = None \<longrightarrow>
              deref d2 (nat y, nat x) = deref d (nat y, nat x))"
proof -
  let ?form = "object_form obj"
  let ?cs = "placed_refs d start_x start_y ?form"
  let ?d1 = "paint d start_x start_y ?form"
  let ?obj1 = "obj\<lparr>object_coordinates := Some ?cs\<rparr>"
  let ?d2 = "wipe ?d1 ?cs"
  let ?obj2 = "?obj1\<lparr>object_coordinates := None\<rparr>"
  have wf1: "wf_display ?d1" using assms by (rule wf_paint)
  have wf2: "wf_display ?d2" using wf1 by (rule wf_wipe)
  have vcs: "list_all (valid_ref ?d1) ?cs"
    using valid_placed_refs [of d start_x start_y ?form] by (simp add: list_all_iff valid_ref_def)
  have draw: "draw_object d obj start_x start_y = Returned (?d1, ?obj1)"
    using assms by (rule draw_object_paint)
  have del: "del_object ?d1 ?obj1 = Returned (?d2, ?obj2)"
    using wf1 _ vcs by (rule del_object_wipe) simp
  have cell: "deref ?d2 ref =
      (if ref \<in> set ?cs then (deref d ref)\<lparr>symbol := '' '', is_active := False\<rparr> else deref d ref)"
    if v: "valid_ref d ref" for ref
  proof -
    have v1: "valid_ref ?d1 ref" using v by (simp add: valid_ref_def)
    note w = deref_wipe [OF wf1 vcs v1]
    note p = deref_paint [OF assms v, of start_x start_y ?form]
    show ?thesis
    proof (cases "ref \<in> set ?cs")
      case True
      with w p show ?thesis
        by (simp add: deactivate_fields activate_fields split: option.splits)
    next
      case False
      have "covering start_x start_y ?form (int (snd ref)) (int (fst ref)) = None"
        using covered_placed_refs [OF v, of start_x start_y ?form] False by blast
      with w p False show ?thesis by simp
    qed
  qed
  have touched: "check_cell_condition ?d2 (start_x + fst t) (start_y + fst (snd t)) = Inr False \<and>
         deref ?d2 (nat (start_y + fst (snd t)), nat (start_x + fst t)) =
           (deref d (nat (start_y + fst (snd t)), nat (start_x + fst t)))
              \<lparr>symbol := '' '', is_active := False\<rparr>"
    if t: "t \<in> set ?form" and c: "check_coordinates d (start_x + fst t) (start_y + fst (snd t))"
    for t
  proof -
    let ?r = "(nat (start_y + fst (snd t)), nat (start_x + fst t))"
    have v: "valid_ref d ?r" using c by (rule valid_ref_check)
    have "?r \<in> set ?cs" using t c by (rule mem_placed_refs)
    with cell [OF v] have e: "deref ?d2 ?r = (deref d ?r)\<lparr>symbol := '' '', is_active := False\<rparr>"
      by simp
    have c2: "check_coordinates ?d2 (start_x + fst t) (start_y + fst (snd t))"
      using c by (simp add: check_coordinates_def)
    show ?thesis using check_cell_condition_wf [OF wf2 c2] e by simp
  qed
  have untouched: "deref ?d2 (nat y, nat x) = deref d (nat y, nat x)"
    if "check_coordinates d x y \<and> covering start_x start_y ?form x y = None" for x y
  proof -
    from that have c: "check_coordinates d x y" and n: "covering start_x start_y ?form x y = None"
      by simp_all
    have v: "valid_ref d (nat y, nat x)" using c by (rule valid_ref_check)
    have xy: "int (nat x) = x" "int (nat y) = y" using c by (simp_all add: check_coordinates_def)
    have "(nat y, nat x) \<notin> set ?cs"
      using placed_refs_covered [of "(nat y, nat x)" d start_x start_y ?form] n xy by auto
    with cell [OF v] show ?thesis by simp
  qed
  show ?thesis
    apply (rule exI [of _ ?d1], rule exI [of _ ?obj1], rule exI [of _ ?d2], rule exI [of _ ?obj2])
    apply (intro conjI ballI allI impI draw del wf2)
    using touched untouched apply simp_all
    done
qed

theorem draw_del_roundtrip_witness:
  "wf_display (Display 4 3) \<and>
   (\<exists>d1 obj1 d2 obj2.
      draw_object (Display 4 3) (EngineObject [(0, 0, Some ''A''), (1, 0, None), (7, 7, Some ''Z'')]) 1 1 =
        Returned (d1, obj1) \<and>
      object_coordinates obj1 = Some [(1, 1), (1, 2)] \<and>
      check_cell_condition d1 1 1 = Inr True \<and>
      check_cell_condition d1 2 1 = Inr True \<and>
      del_object d1 obj1 = Returned (d2, obj2) \<and>
      object_coordinates obj2 = None \<and>
      check_coordinates (Display 4 3) (1 + 0) (1 + 0) \<and>
      check_cell_condition d2 1 1 = Inr False \<and>
      check_cell_condition d2 2 1 = Inr False \<and>
      d2 = Display 4 3)"
proof -
  let ?form = "[(0, 0, Some ''A''), (1, 0, None), (7, 7, Some ''Z'')]"
  let ?obj = "EngineObject ?form"
  let ?P = "paint (Display 4 3) 1 1 ?form"
  let ?O1 = "\<lparr>object_form = ?form, object_coordinates = Some [(1::nat, 1::nat), (1, 2)]\<rparr>"
  let ?O2 = "\<lparr>object_form = ?form, object_coordinates = None :: cell_ref list option\<rparr>"
  have ev1: "draw_object (Display 4 3) ?obj 1 1 = Returned (?P, ?O1)" by code_simp
  have ev2: "del_object ?P ?O1 = Returned (Display 4 3, ?O2)" by code_simp
  have q1: "check_cell_condition ?P 1 1 = Inr True" "check_cell_condition ?P 2 1 = Inr True"
    by code_simp+
  have q2: "check_cell_condition (Display 4 3) 1 1 = Inr False"
    "check_cell_condition (Display 4 3) 2 1 = Inr False"
    "check_coordinates (Display 4 3) (1 + 0) (1 + 0)"
    by code_simp+
  from draw_del_roundtrip [OF wf_Display, of 4 3 ?obj 1 1] obtain d1 obj1 d2 obj2 where
    r: "draw_object (Display 4 3) ?obj 1 1 = Returned (d1, obj1)"
      "del_object d1 obj1 = Returned (d2, obj2)" "object_coordinates obj2 = None"
    by blast
  from r(1) ev1 have "d1 = ?P" "obj1 = ?O1" by simp_all
  with r(2) ev2 have "d2 = Display 4 3" "obj2 = ?O2" by simp_all
  show ?thesis
    apply (rule conjI [OF wf_Display])
    apply (rule exI [of _ ?P], rule exI [of _ ?O1], rule exI [of _ "Display 4 3"],
        rule exI [of _ ?O2])
    apply (intro conjI ev1 ev2 q1 q2)
      apply simp_all
    done
qed

text \<open>
  Claim C8. \<open>move_object\<close> is \<open>del_object\<close> followed by \<open>draw_object\<close> at the new
  origin, for every display and object, whether the steps return or raise. For an object
  placed on a well-formed display it returns; afterwards the recorded cells are those of
  the in-bounds offsets at the new origin, every cell the new footprint covers is active
  with its symbol, and every formerly recorded cell outside the new footprint is inactive
  with the symbol of an empty cell (a formerly recorded cell that the new footprint
  covers again is active, drawn anew). The witness moves an object of three cells from
  origin (2,2) to (5,5) on a 10 x 10 display: cell (2,2) is inactive and the only active
  cells are (5,5), (6,5) and (5,6).
\<close>

theorem move_object_composition:
  "move_object d obj new_x new_y = remove_then_draw d obj new_x new_y \<and>
   (wf_display d \<and> object_coordinates obj = Some cs \<and> list_all (valid_ref d) cs \<longrightarrow>
      (\<exists>d'. move_object d obj new_x new_y =
              Returned (d', obj\<lparr>object_coordinates :=
                Some (map (\<lambda>t. (nat (new_y + fst (snd t)), nat (new_x + fst t)))
                       (in_bounds_offsets d new_x new_y (object_form obj)))\<rparr>) \<and>
            wf_display d' \<and> size_x d' = size_x d \<and> size_y d' = size_y d \<and>
            (\<forall>ref. valid_ref d ref \<longrightarrow>
               deref d' ref =
                 (case covering new_x new_y (object_form obj) (int (snd ref)) (int (fst ref)) of
                    Some s \<Rightarrow> (deref d ref)\<lparr>symbol := the_symbol s, is_active := True\<rparr>
                  | None \<Rightarrow>
                      if ref \<in> set cs then (deref d ref)\<lparr>symbol := '' '', is_active := False\<rparr>
                      else deref d ref))))"
proof (intro conjI impI)
  show "move_object d obj new_x new_y = remove_then_draw d obj new_x new_y"
    by (simp add: move_object_def remove_then_draw_def and_then_def
        split: outcome.splits prod.splits)
next
  assume a: "wf_display d \<and> object_coordinates obj = Some cs \<and> list_all (valid_ref d) cs"
  then have wf: "wf_display d" and oc: "object_coordinates obj = Some cs"
    and cs: "list_all (valid_ref d) cs" by simp_all
  let ?form = "object_form obj"
  let ?d1 = "wipe d cs"
  let ?obj1 = "obj\<lparr>object_coordinates := None\<rparr>"
  let ?d2 = "paint ?d1 new_x new_y ?form"
  have wf1: "wf_display ?d1" using wf by (rule wf_wipe)
  have wf2: "wf_display ?d2" using wf1 by (rule wf_paint)
  have del: "del_object d obj = Returned (?d1, ?obj1)" using wf oc cs by (rule del_object_wipe)
  have draw: "draw_object ?d1 ?obj1 new_x new_y =
      Returned (?d2, ?obj1\<lparr>object_coordinates := Some (placed_refs ?d1 new_x new_y ?form)\<rparr>)"
    using draw_object_paint [OF wf1, of ?obj1 new_x new_y] by simp
  have pr: "placed_refs ?d1 new_x new_y ?form = placed_refs d new_x new_y ?form"
    by (rule placed_refs_sizes) simp_all
  have mv: "move_object d obj new_x new_y =
      Returned (?d2, obj\<lparr>object_coordinates := Some (placed_refs d new_x new_y ?form)\<rparr>)"
    using del draw by (simp add: move_object_def pr)
  show "\<exists>d'. move_object d obj new_x new_y =
              Returned (d', obj\<lparr>object_coordinates :=
                Some (map (\<lambda>t. (nat (new_y + fst (snd t)), nat (new_x + fst t)))
                       (in_bounds_offsets d new_x new_y (object_form obj)))\<rparr>) \<and>
            wf_display d' \<and> size_x d' = size_x d \<and> size_y d' = size_y d \<and>
            (\<forall>ref. valid_ref d ref \<longrightarrow>
               deref d' ref =
                 (case covering new_x new_y (object_form obj) (int (snd ref)) (int (fst ref)) of
                    Some s \<Rightarrow> (deref d ref)\<lparr>symbol := the_symbol s, is_active := True\<rparr>
                  | None \<Rightarrow>
                      if ref \<in> set cs then (deref d ref)\<lparr>symbol := '' '', is_active := False\<rparr>
                      else deref d ref))"
  proof (intro exI conjI allI impI)
    show "move_object d obj new_x new_y =
              Returned (?d2, obj\<lparr>object_coordinates :=
                Some (map (\<lambda>t. (nat (new_y + fst (snd t)), nat (new_x + fst t)))
                       (in_bounds_offsets d new_x new_y (object_form obj)))\<rparr>)"
      using mv by (simp add: placed_refs_def)
    show "wf_display ?d2" by (rule wf2)
    show "size_x ?d2 = size_x d" "size_y ?d2 = size_y d" by simp_all
    fix ref assume v: "valid_ref d ref"
    then have v1: "valid_ref ?d1 ref" by (simp add: valid_ref_def)
    show "deref ?d2 ref =
        (case covering new_x new_y ?form (int (snd ref)) (int (fst ref)) of
           Some s \<Rightarrow> (deref d ref)\<lparr>symbol := the_symbol s, is_active := True\<rparr>
         | None \<Rightarrow>
             if ref \<in> set cs then (deref d ref)\<lparr>symbol := '' '', is_active := False\<rparr>
             else deref d ref)"
      using deref_paint [OF wf1 v1, of new_x new_y ?form] deref_wipe [OF wf cs v]
      by (simp add: activate_fields deactivate_fields split: option.splits)
  qed
qed

theorem move_object_composition_witness:
  "draw_object (Display 10 10) (EngineObject [(0, 0, Some ''A''), (1, 0, None), (0, 1, Some ''B'')]) 2 2 =
     Returned (paint (Display 10 10) 2 2 [(0, 0, Some ''A''), (1, 0, None), (0, 1, Some ''B'')],
       \<lparr>object_form = [(0, 0, Some ''A''), (1, 0, None), (0, 1, Some ''B'')],
        object_coordinates = Some [(2, 2), (2, 3), (3, 2)]\<rparr>) \<and>
   wf_display (paint (Display 10 10) 2 2 [(0, 0, Some ''A''), (1, 0, None), (0, 1, Some ''B'')]) \<and>
   list_all (valid_ref (paint (Display 10 10) 2 2 [(0, 0, Some ''A''), (1, 0, None), (0, 1, Some ''B'')]))
     [(2, 2), (2, 3), (3, 2)] \<and>
   (\<exists>d'. move_object (paint (Display 10 10) 2 2 [(0, 0, Some ''A''), (1, 0, None), (0, 1, Some ''B'')])
            \<lparr>object_form = [(0, 0, Some ''A''), (1, 0, None), (0, 1, Some ''B'')],
             object_coordinates = Some [(2, 2), (2, 3), (3, 2)]\<rparr> 5 5 =
          Returned (d', \<lparr>object_form = [(0, 0, Some ''A''), (1, 0, None), (0, 1, Some ''B'')],
                         object_coordinates = Some [(5, 5), (5, 6), (6, 5)]\<rparr>) \<and>
          check_cell_condition d' 2 2 = Inr False \<and>
          check_cell_condition d' 5 5 = Inr True \<and>
          map (\<lambda>c. (cell_x c, cell_y c, symbol c)) (filter is_active (concat (grid d'))) =
            [(5, 5, ''A''), (6, 5, ''#''), (5, 6, ''B'')])"
proof -
  let ?form = "[(0, 0, Some ''A''), (1, 0, None), (0, 1, Some ''B'')]"
  let ?D1 = "paint (Display 10 10) 2 2 ?form"
  let ?O1 = "\<lparr>object_form = ?form, object_coordinates = Some [(2::nat, 2::nat), (2, 3), (3, 2)]\<rparr>"
  let ?O2 = "\<lparr>object_form = ?form, object_coordinates = Some [(5::nat, 5::nat), (5, 6), (6, 5)]\<rparr>"
  let ?D2 = "paint (Display 10 10) 5 5 ?form"
  have wf: "wf_display ?D1" by (intro wf_paint wf_Display)
  have oc: "object_coordinates ?O1 = Some [(2, 2), (2, 3), (3, 2)]" by simp
  have v: "list_all (valid_ref ?D1) [(2, 2), (2, 3), (3, 2)]"
    by (simp add: valid_ref_def Display_def)
  have ev0: "draw_object (Display 10 10) (EngineObject ?form) 2 2 = Returned (?D1, ?O1)"
    by code_simp
  have ev: "move_object ?D1 ?O1 5 5 = Returned (?D2, ?O2)" by code_simp
  have q: "check_cell_condition ?D2 2 2 = Inr False" "check_cell_condition ?D2 5 5 = Inr True"
    "map (\<lambda>c. (cell_x c, cell_y c, symbol c)) (filter is_active (concat (grid ?D2))) =
       [(5, 5, ''A''), (6, 5, ''#''), (5, 6, ''B'')]"
    by code_simp+
  from move_object_composition [of ?D1 ?O1 5 5 "[(2, 2), (2, 3), (3, 2)]"] wf oc v
  obtain d' where m: "move_object ?D1 ?O1 5 5 =
      Returned (d', ?O1\<lparr>object_coordinates :=
         Some (map (\<lambda>t. (nat (5 + fst (snd t)), nat (5 + fst t)))
                (in_bounds_offsets ?D1 5 5 (object_form ?O1)))\<rparr>)"
    by blast
  with ev have d': "d' = ?D2" by simp
  show ?thesis
    apply (intro conjI ev0 wf v)
    apply (rule exI [of _ d'])
    using m ev q d' apply simp
    done
qed

text \<open>
  Claim C10. \<open>draw_object\<close> on an object that is already placed overwrites
  \<open>object_coordinates\<close> and deactivates nothing: a recorded cell that no offset of the
  form lands on at the new origin is left exactly as it was (so it remains active if it
  was), it is not among the newly recorded cells, and a following \<open>del_object\<close>
  leaves it as it was too.
\<close>

theorem redraw_leaves_old_cells:
  assumes "wf_display d" "object_coordinates obj = Some cs" "list_all (valid_ref d) cs"
    and "ref \<in> set cs"
    and "\<forall>t \<in> set (object_form obj).
           \<not> (new_x + fst t = int (snd ref) \<and> new_y + fst (snd t) = int (fst ref))"
  shows "\<exists>d1 cs1 d2.
           draw_object d obj new_x new_y = Returned (d1, obj\<lparr>object_coordinates := Some cs1\<rparr>) \<and>
           ref \<notin> set cs1 \<and> deref d1 ref = deref d ref \<and>
           del_object d1 (obj\<lparr>object_coordinates := Some cs1\<rparr>) =
             Returned (d2, obj\<lparr>object_coordinates := None\<rparr>) \<and>
           deref d2 ref = deref d ref \<and>
           (is_active (deref d ref) \<longrightarrow> is_active (deref d1 ref) \<and> is_active (deref d2 ref))"
proof -
  let ?form = "object_form obj"
  let ?cs1 = "placed_refs d new_x new_y ?form"
  let ?d1 = "paint d new_x new_y ?form"
  let ?obj1 = "obj\<lparr>object_coordinates := Some ?cs1\<rparr>"
  let ?d2 = "wipe ?d1 ?cs1"
  have v: "valid_ref d ref" using assms(3,4) by (simp add: list_all_iff)
  have nc: "covering new_x new_y ?form (int (snd ref)) (int (fst ref)) = None"
    unfolding covering_None_iff using assms(5) .
  have wf1: "wf_display ?d1" using assms(1) by (rule wf_paint)
  have vcs: "list_all (valid_ref ?d1) ?cs1"
    using valid_placed_refs [of d new_x new_y ?form] by (simp add: list_all_iff valid_ref_def)
  have v1: "valid_ref ?d1 ref" using v by (simp add: valid_ref_def)
  have draw: "draw_object d obj new_x new_y = Returned (?d1, ?obj1)"
    using assms(1) by (rule draw_object_paint)
  have notin: "ref \<notin> set ?cs1" using placed_refs_covered [of ref d new_x new_y ?form] nc by blast
  have c1: "deref ?d1 ref = deref d ref"
    using deref_paint [OF assms(1) v, of new_x new_y ?form] nc by simp
  have del: "del_object ?d1 ?obj1 = Returned (?d2, obj\<lparr>object_coordinates := None\<rparr>)"
    using del_object_wipe [OF wf1 _ vcs, of ?obj1] by simp
  have c2: "deref ?d2 ref = deref d ref"
    using deref_wipe [OF wf1 vcs v1] notin c1 by simp
  show ?thesis
    apply (rule exI [of _ ?d1], rule exI [of _ ?cs1], rule exI [of _ ?d2])
    apply (intro conjI impI draw notin c1 del c2)
     apply (simp_all add: c1 c2)
    done
qed

theorem redraw_leaves_old_cells_witness:
  "wf_display (paint (Display 10 10) 2 2 [(0, 0, Some ''A''), (1, 0, Some ''B'')]) \<and>
   draw_object (Display 10 10) (EngineObject [(0, 0, Some ''A''), (1, 0, Some ''B'')]) 2 2 =
     Returned (paint (Display 10 10) 2 2 [(0, 0, Some ''A''), (1, 0, Some ''B'')],
       \<lparr>object_form = [(0, 0, Some ''A''), (1, 0, Some ''B'')],
        object_coordinates = Some [(2, 2), (2, 3)]\<rparr>) \<and>
   list_all (valid_ref (paint (Display 10 10) 2 2 [(0, 0, Some ''A''), (1, 0, Some ''B'')]))
     [(2, 2), (2, 3)] \<and>
   (2, 2) \<in> set [(2::nat, 2::nat), (2, 3)] \<and>
   list_all (\<lambda>t. \<not> (5 + fst t = int (snd (2::nat, 2::nat)) \<and> 5 + fst (snd t) = int (fst (2::nat, 2::nat))))
     [(0::int, 0::int, Some ''A''), (1, 0, Some ''B'')] \<and>
   is_active (deref (paint (Display 10 10) 2 2 [(0, 0, Some ''A''), (1, 0, Some ''B'')]) (2, 2)) \<and>
   (\<exists>d1 cs1 d2.
      draw_object (paint (Display 10 10) 2 2 [(0, 0, Some ''A''), (1, 0, Some ''B'')])
        \<lparr>object_form = [(0, 0, Some ''A''), (1, 0, Some ''B'')],
         object_coordinates = Some [(2, 2), (2, 3)]\<rparr> 5 5 =
        Returned (d1, \<lparr>object_form = [(0, 0, Some ''A''), (1, 0, Some ''B'')],
                       object_coordinates = Some cs1\<rparr>) \<and>
      cs1 = [(5, 5), (5, 6)] \<and>
      check_cell_condition d1 2 2 = Inr True \<and>
      del_object d1 \<lparr>object_form = [(0, 0, Some ''A''), (1, 0, Some ''B'')],
                     object_coordinates = Some cs1\<rparr> =
        Returned (d2, \<lparr>object_form = [(0, 0, Some ''A''), (1, 0, Some ''B'')],
                       object_coordinates = None\<rparr>) \<and>
      check_cell_condition d2 2 2 = Inr True \<and>
      check_cell_condition d2 3 2 = Inr True \<and>
      check_cell_condition d2 5 5 = Inr False)"
proof -
  let ?form = "[(0, 0, Some ''A''), (1, 0, Some ''B'')]"
  let ?D0 = "paint (Display 10 10) 2 2 ?form"
  let ?O0 = "\<lparr>object_form = ?form, object_coordinates = Some [(2::nat, 2::nat), (2, 3)]\<rparr>"
  let ?O1 = "\<lparr>object_form = ?form, object_coordinates = Some [(5::nat, 5::nat), (5, 6)]\<rparr>"
  let ?O2 = "\<lparr>object_form = ?form, object_coordinates = None :: cell_ref list option\<rparr>"
  let ?D1 = "paint ?D0 5 5 ?form"
  have wf: "wf_display ?D0" by (intro wf_paint wf_Display)
  have oc: "object_coordinates ?O0 = Some [(2, 2), (2, 3)]" by simp
  have v: "list_all (valid_ref ?D0) [(2, 2), (2, 3)]" by (simp add: valid_ref_def Display_def)
  have mem: "(2, 2) \<in> set [(2::nat, 2::nat), (2, 3)]" by simp
  have nc: "\<forall>t \<in> set (object_form ?O0).
      \<not> (5 + fst t = int (snd (2::nat, 2::nat)) \<and> 5 + fst (snd t) = int (fst (2::nat, 2::nat)))"
    by simp
  have ev0: "draw_object (Display 10 10) (EngineObject ?form) 2 2 = Returned (?D0, ?O0)"
    by code_simp
  have a0: "is_active (deref ?D0 (2, 2))" by code_simp
  have ev1: "draw_object ?D0 ?O0 5 5 = Returned (?D1, ?O1)" by code_simp
  have ev2: "del_object ?D1 ?O1 = Returned (?D0, ?O2)" by code_simp
  have q: "check_cell_condition ?D1 2 2 = Inr True" "check_cell_condition ?D0 2 2 = Inr True"
    "check_cell_condition ?D0 3 2 = Inr True" "check_cell_condition ?D0 5 5 = Inr False"
    by code_simp+
  from redraw_leaves_old_cells [OF wf oc v mem nc] obtain d1 cs1 d2 where
    r: "draw_object ?D0 ?O0 5 5 = Returned (d1, ?O0\<lparr>object_coordinates := Some cs1\<rparr>)"
       "del_object d1 (?O0\<lparr>object_coordinates := Some cs1\<rparr>) =
          Returned (d2, ?O0\<lparr>object_coordinates := None\<rparr>)"
    by blast
  from r(1) ev1 have e1: "d1 = ?D1" "cs1 = [(5, 5), (5, 6)]" by simp_all
  with r(2) ev2 have e2: "d2 = ?D0" by simp
  show ?thesis
    apply (intro conjI wf ev0 v mem a0)
     apply simp
    apply (rule exI [of _ d1], rule exI [of _ cs1], rule exI [of _ d2])
    using r e1 e2 q apply simp
    done
qed

section \<open>Rendering\<close>

text \<open>
  Claim C4, as stated: every frame has exactly \<open>size_y\<close> lines of exactly \<open>size_x\<close>
  characters. A symbol is any string, and a cell activated with a symbol of two
  characters makes its line longer than the display is wide: on a display of width 2 and
  height 1 the only line of the frame has three characters.
\<close>

theorem render_frame_counterexample:
  "wf_display (state_of (activate_cell (Display 2 1) 0 0 (Some ''AB''))) \<and>
   size_x (state_of (activate_cell (Display 2 1) 0 0 (Some ''AB''))) = 2 \<and>
   render (state_of (activate_cell (Display 2 1) 0 0 (Some ''AB''))) =
     [CHR 0x1B # ''[H'', ''AB '' @ [CHR 0x0A, CHR 0x0A]] \<and>
   render_lines (state_of (activate_cell (Display 2 1) 0 0 (Some ''AB''))) = [''AB ''] \<and>
   \<not> list_all (\<lambda>l. length l = nat (size_x (state_of (activate_cell (Display 2 1) 0 0 (Some ''AB'')))))
       (render_lines (state_of (activate_cell (Display 2 1) 0 0 (Some ''AB''))))"
  by code_simp

text \<open>
  Claim C4, amended: \<open>render\<close> prints the control sequence ESC [ H and then, with one
  further call of print, the whole frame: for each row in order the concatenation of its
  cell symbols in column order followed by a line break, and after the last row the line
  break print appends. On a well-formed display the frame has \<open>size_y\<close> such lines, and
  each has exactly \<open>size_x\<close> characters when every cell symbol is a single character.
  When the cell invariant holds, cell (0,0) carries X and every other cell is inactive,
  the first line is X followed by \<open>size_x - 1\<close> spaces and the other \<open>size_y - 1\<close>
  lines are \<open>size_x\<close> spaces each.
\<close>

theorem render_frame:
  "render d =
     [CHR 0x1B # ''[H'', concat (map (\<lambda>l. l @ [CHR 0x0A]) (render_lines d)) @ [CHR 0x0A]] \<and>
   (wf_display d \<longrightarrow> length (render_lines d) = nat (size_y d)) \<and>
   (\<forall>r < length (grid d). render_lines d ! r = concat (map symbol (grid d ! r))) \<and>
   (wf_display d \<and> list_all (list_all (\<lambda>c. length (symbol c) = 1)) (grid d) \<longrightarrow>
      list_all (\<lambda>l. length l = nat (size_x d)) (render_lines d)) \<and>
   (wf_display d \<and> grid_inv d \<and> 0 < size_x d \<and> 0 < size_y d \<and>
    symbol (deref d (0, 0)) = ''X'' \<and>
    (\<forall>ref. valid_ref d ref \<and> ref \<noteq> (0, 0) \<longrightarrow> \<not> is_active (deref d ref)) \<longrightarrow>
      render_lines d =
        (''X'' @ replicate (nat (size_x d) - 1) CHR '' '') #
        replicate (nat (size_y d) - 1) (replicate (nat (size_x d)) CHR '' ''))"
proof (intro conjI impI allI)
  show "render d =
     [CHR 0x1B # ''[H'', concat (map (\<lambda>l. l @ [CHR 0x0A]) (render_lines d)) @ [CHR 0x0A]]"
    by (rule render_eq)
next
  assume "wf_display d"
  then show "length (render_lines d) = nat (size_y d)"
    by (simp add: render_lines_def wf_length)
next
  fix r assume "r < length (grid d)"
  then show "render_lines d ! r = concat (map symbol (grid d ! r))"
    by (simp add: render_lines_def)
next
  assume "wf_display d \<and> list_all (list_all (\<lambda>c. length (symbol c) = 1)) (grid d)"
  then show "list_all (\<lambda>l. length l = nat (size_x d)) (render_lines d)"
    by (simp add: render_lines_width)
next
  assume a: "wf_display d \<and> grid_inv d \<and> 0 < size_x d \<and> 0 < size_y d \<and>
    symbol (deref d (0, 0)) = ''X'' \<and>
    (\<forall>ref. valid_ref d ref \<and> ref \<noteq> (0, 0) \<longrightarrow> \<not> is_active (deref d ref))"
  then have wf: "wf_display d" and inv: "grid_inv d" by simp_all
  have "symbol (deref d ref) = '' ''" if "valid_ref d ref \<and> ref \<noteq> (0, 0)" for ref
  proof -
    from that a have na: "\<not> is_active (deref d ref)" by blast
    from that have "fst ref < length (grid d)" "snd ref < length (grid d ! fst ref)"
      using wf by (simp_all add: valid_ref_def wf_length wf_row_length)
    with inv have "cell_inv (deref d ref)"
      by (simp add: grid_inv_def list_all_length deref_def)
    with na show ?thesis by (simp add: cell_inv_def)
  qed
  then have "\<forall>ref. valid_ref d ref \<and> ref \<noteq> (0, 0) \<longrightarrow> symbol (deref d ref) = '' ''"
    by blast
  with a show "render_lines d =
        (''X'' @ replicate (nat (size_x d) - 1) CHR '' '') #
        replicate (nat (size_y d) - 1) (replicate (nat (size_x d)) CHR '' '')"
    by (intro render_lines_example) simp_all
qed

theorem render_frame_witness:
  "wf_display (state_of (activate_cell (Display 4 3) 0 0 (Some ''X''))) \<and>
   grid_inv (state_of (activate_cell (Display 4 3) 0 0 (Some ''X''))) \<and>
   list_all (list_all (\<lambda>c. length (symbol c) = 1))
     (grid (state_of (activate_cell (Display 4 3) 0 0 (Some ''X'')))) \<and>
   symbol (deref (state_of (activate_cell (Display 4 3) 0 0 (Some ''X''))) (0, 0)) = ''X'' \<and>
   map (\<lambda>c. (cell_x c, cell_y c))
     (filter is_active (concat (grid (state_of (activate_cell (Display 4 3) 0 0 (Some ''X'')))))) =
     [(0, 0)] \<and>
   render_lines (state_of (activate_cell (Display 4 3) 0 0 (Some ''X''))) =
     [''X   '', ''    '', ''    ''] \<and>
   render (state_of (activate_cell (Display 4 3) 0 0 (Some ''X''))) =
     [CHR 0x1B # ''[H'',
      ''X   '' @ [CHR 0x0A] @ ''    '' @ [CHR 0x0A] @ ''    '' @ [CHR 0x0A] @ [CHR 0x0A]]"
proof -
  let ?d = "state_of (activate_cell (Display 4 3) 0 0 (Some ''X''))"
  have wf: "wf_display ?d" by (intro wf_activate_cell wf_Display)
  have inv: "grid_inv ?d" by (intro grid_inv_activate_cell grid_inv_Display) simp
  have one: "list_all (list_all (\<lambda>c. length (symbol c) = 1)) (grid ?d)" by code_simp
  have x: "symbol (deref ?d (0, 0)) = ''X''" by code_simp
  have act: "map (\<lambda>c. (cell_x c, cell_y c)) (filter is_active (concat (grid ?d))) = [(0, 0)]"
    by code_simp
  have ls: "render_lines ?d = [''X   '', ''    '', ''    '']" by code_simp
  from render_frame [of ?d] have "render ?d =
      [CHR 0x1B # ''[H'', concat (map (\<lambda>l. l @ [CHR 0x0A]) (render_lines ?d)) @ [CHR 0x0A]]"
    by blast
  then have "render ?d = [CHR 0x1B # ''[H'',
      ''X   '' @ [CHR 0x0A] @ ''    '' @ [CHR 0x0A] @ ''    '' @ [CHR 0x0A] @ [CHR 0x0A]]"
    by (simp add: ls)
  with wf inv one x act ls show ?thesis by blast
qed

section \<open>The frame loop\<close>

text \<open>
  Claim C9. \<open>run\<close> with the interval omitted (None) and \<open>run\<close> with the interval 0
  both take the loop without pacing: for every number of iterations observed they do
  what \<open>_run_without_fps_limit\<close> does, they do the same as each other, no call of sleep
  occurs, and with a hook that returns each iteration is a call of \<open>update\<close> followed by
  a rendering of the display. The witness also shows the difference from pacing to 0
  seconds: when the clock steps back, \<open>_run_with_fps_limit(0)\<close> sleeps while
  \<open>run(0)\<close> does not.
\<close>

theorem run_falsy_unlimited:
  "run update disp clock None n s = run_without_fps_limit update disp n s \<and>
   run update disp clock (Some 0) n s = run_without_fps_limit update disp n s \<and>
   run update disp clock (Some 0) n s = run update disp clock None n s \<and>
   \<not> list_ex is_sleep (run update disp clock (Some 0) n s) \<and>
   run (\<lambda>s. Inr (u s)) disp clock (Some 0) n s = unpaced_frames u disp n s"
  by (simp add: run_def truthy_def no_sleep_without without_frames)

theorem run_falsy_unlimited_witness:
  "run (\<lambda>s. Inr (Suc s) :: unit + nat) (\<lambda>s. Display 1 1) (\<lambda>k. if k = 1 then - 1 else 0)
     (Some 0) 2 0 =
     [Update_called, Rendered (render (Display 1 1)),
      Update_called, Rendered (render (Display 1 1))] \<and>
   run (\<lambda>s. Inr (Suc s) :: unit + nat) (\<lambda>s. Display 1 1) (\<lambda>k. if k = 1 then - 1 else 0)
     None 2 0 =
     [Update_called, Rendered (render (Display 1 1)),
      Update_called, Rendered (render (Display 1 1))] \<and>
   run_with_fps_limit (\<lambda>s. Inr (Suc s) :: unit + nat) (\<lambda>s. Display 1 1)
     (\<lambda>k. if k = 1 then - 1 else 0) (Some 0) 1 0 =
     [Slept 1, Update_called, Rendered (render (Display 1 1))]"
proof -
  let ?u = "\<lambda>s. Inr (Suc s) :: unit + nat"
  let ?dp = "\<lambda>s :: nat. Display 1 1"
  let ?clock = "\<lambda>k :: nat. if k = 1 then - 1 else 0 :: real"
  let ?two = "[Update_called, Rendered (render (Display 1 1)),
      Update_called, Rendered (render (Display 1 1))] :: unit event list"
  have w: "run_without_fps_limit ?u ?dp 2 0 = ?two" by (simp add: numeral_2_eq_2)
  have c: "run_with_fps_limit ?u ?dp ?clock (Some 0) 1 0 =
      [Slept 1, Update_called, Rendered (render (Display 1 1))]"
    by (simp add: run_with_fps_limit_def)
  note r = run_falsy_unlimited [of ?u ?dp ?clock 2 0 Suc]
  have "run ?u ?dp ?clock None 2 0 = run_without_fps_limit ?u ?dp 2 0"
    by (rule r [THEN conjunct1])
  moreover have "run ?u ?dp ?clock (Some 0) 2 0 = run_without_fps_limit ?u ?dp 2 0"
    by (rule r [THEN conjunct2, THEN conjunct1])
  ultimately show ?thesis using c by (simp only: w simp_thms)
qed

end
